theory Spec2Isabelle
  imports
    Main
    "HOL-Library.AList"
    "HOL-Library.Char_ord"
    "HOL-Library.List_Lexorder"
    "HOL-Library.FSet"
    "HOL-Library.Multiset"
begin

section \<open>Type hints, model classes and functions\<close>

text \<open>
  The registry and the generator inspect Python type hints. A hint is modelled by what
  the two inspecting functions (\<open>collect_models_from_type\<close> in registry.py and
  \<open>_type_to_ts\<close> in generator.py) can observe of it: the value \<open>None\<close>, one of the
  classes of the table \<open>PYTHON_TO_TS_TYPES\<close>, \<open>Any\<close>, a generic alias with its origin
  and its arguments, a Pydantic model class, another class, or anything else.

  A Pydantic model class is an object with an identity; a hint refers to the class, and
  the class's fields carry hints again, so the graph of classes may be cyclic. Classes
  therefore live in a finite table (\<open>class_table\<close>) and a hint holds the class's key.
  Two classes of the table may have the same \<open>__name__\<close>.
\<close>

type_synonym class_id = nat

datatype py_type =
    TNone
  | TNoneType
  | TStr
  | TInt
  | TFloat
  | TBool
  | TBytes
  | TAny
  | TUnion "py_type list"
  | TList "py_type list"
  | TDict "py_type list"
  | TTuple "py_type list"
  | TSet "py_type list"
  | TGeneric "py_type list"
  | TModel class_id
  | TClass string
  | TOther

record field_info =
  annotation :: py_type
  is_required :: bool
  description :: "string option"

record model_class =
  model_name :: string
  model_doc :: "string option"
  model_fields :: "(string \<times> field_info) list"

type_synonym class_table = "(class_id \<times> model_class) list"

text \<open>
  \<open>get_args\<close> of the typing module: the arguments of a generic alias, the empty tuple
  for everything else.
\<close>

fun get_args :: "py_type \<Rightarrow> py_type list" where
  "get_args (TUnion args) = args"
| "get_args (TList args) = args"
| "get_args (TDict args) = args"
| "get_args (TTuple args) = args"
| "get_args (TSet args) = args"
| "get_args (TGeneric args) = args"
| "get_args _ = []"

text \<open>
  Values that travel through the dispatcher: JSON-like data, instances of Pydantic models
  (class name and field values) and the channel handle given to a streaming handler.
\<close>

datatype py_value =
    VNone
  | VBool bool
  | VInt int
  | VStr string
  | VList "py_value list"
  | VDict "(string \<times> py_value) list"
  | VModel string "(string \<times> py_value) list"
  | VChannel string

text \<open>
  What a handler does to the channel it was given, in the order it does it.
\<close>

datatype chan_op = Send py_value | SendError string | Close

text \<open>
  An exception object as the dispatcher sees it: which of its \<open>except\<close> clauses can catch
  it, and \<open>str(e)\<close>. \<open>TypeError\<close> stands for \<open>TypeError\<close> and its subclasses,
  \<open>OtherException\<close> for every other instance of \<open>Exception\<close>, \<open>BaseExceptionOnly\<close> for
  what derives from \<open>BaseException\<close> but not from \<open>Exception\<close> (\<open>asyncio.CancelledError\<close>,
  \<open>KeyboardInterrupt\<close>, \<open>SystemExit\<close>).
\<close>

datatype exc_class = TypeError | OtherException | BaseExceptionOnly

record py_exception =
  exc_class :: exc_class
  message :: string

definition is_type_error :: "py_exception \<Rightarrow> bool" where
  "is_type_error e = (exc_class e = TypeError)"

definition is_exception :: "py_exception \<Rightarrow> bool" where
  "is_exception e = (exc_class e \<noteq> BaseExceptionOnly)"

datatype outcome = Returned py_value | Raised py_exception

text \<open>
  What calling a function on keyword arguments does (for a coroutine function: calling it
  and running the coroutine): either Python refuses to bind the keyword arguments to the
  function's parameters (a \<open>TypeError\<close> raised by the call itself, with its message), or
  the body runs, acts on its channel and returns or raises.
\<close>

datatype call_result = BindFailure string | Ran "chan_op list" outcome

text \<open>
  A Python function as the decorator and the dispatcher use it: \<open>__name__\<close>, the
  parameter names of \<open>inspect.signature\<close> in order, the dictionary of \<open>get_type_hints\<close>
  (empty when \<open>get_type_hints\<close> raised), \<open>__doc__\<close>, \<open>__module__\<close>,
  \<open>asyncio.iscoroutinefunction\<close>, and its behaviour when called on keyword arguments.
\<close>

record py_function =
  fn_name :: string
  fn_params :: "string list"
  fn_hints :: "(string \<times> py_type) list"
  fn_doc :: "string option"
  fn_module :: string
  fn_is_coroutine :: bool
  fn_call :: "(string \<times> py_value) list \<Rightarrow> call_result"

section \<open>The command registry (registry.py)\<close>

text \<open>
  A Python \<open>dict\<close> keeps insertion order, and the enumerations of the registry depend on
  it, so a dictionary is an association list in insertion order with distinct keys:
  \<open>map_of\<close> is \<open>d.get(k)\<close>, \<open>AList.update\<close> is \<open>d[k] = v\<close> (a new key is appended, an
  existing key keeps its place).
\<close>

record command_info =
  name :: string
  func :: py_function
  params :: "(string \<times> py_type) list"
  return_type :: py_type
  is_async :: bool
  docstring :: "string option"
  module :: string
  has_channel :: bool

record command_registry =
  commands :: "(string \<times> command_info) list"
  models :: "(string \<times> model_class) list"

text \<open>
  What a method of the registry or of the dispatcher raises: one of the errors it raises
  itself, or an exception of the handler that none of its \<open>except\<close> clauses catches.
\<close>

datatype bridge_error =
    ValueError string
  | ValidationError string
  | CommandExecutionError string
  | Uncaught py_exception

definition empty_registry :: command_registry where
  "empty_registry = \<lparr>commands = [], models = []\<rparr>"

definition conflict_message :: "string \<Rightarrow> string \<Rightarrow> string \<Rightarrow> string" where
  "conflict_message cmd_name existing_module new_module =
     ''Command name conflict: '' @ [CHR 0x27] @ cmd_name @ [CHR 0x27] @ '' is defined in both ''
     @ [CHR 0x27] @ existing_module @ [CHR 0x27] @ '' and '' @ [CHR 0x27] @ new_module @ [CHR 0x27]
     @ ''. Command names must be unique across all modules.''"

text \<open>
  \<open>CommandRegistry.register\<close>. The result is the outcome (the raised \<open>ValueError\<close> or
  normal completion) together with the registry after the call.
\<close>

definition register :: "command_registry \<Rightarrow> command_info \<Rightarrow> (bridge_error + unit) \<times> command_registry" where
  "register reg cmd =
     (case map_of (commands reg) (name cmd) of
        Some existing \<Rightarrow>
          (Inl (ValueError (conflict_message (name cmd) (module existing) (module cmd))), reg)
      | None \<Rightarrow>
          (Inr (), reg\<lparr>commands := AList.update (name cmd) cmd (commands reg)\<rparr>))"

text \<open>\<open>CommandRegistry.register_model\<close>.\<close>

definition register_model :: "command_registry \<Rightarrow> model_class \<Rightarrow> command_registry" where
  "register_model reg model =
     (if map_of (models reg) (model_name model) = None
      then reg\<lparr>models := AList.update (model_name model) model (models reg)\<rparr>
      else reg)"

definition get_command :: "command_registry \<Rightarrow> string \<Rightarrow> command_info option" where
  "get_command reg n = map_of (commands reg) n"

section \<open>Type mapping (generator.py)\<close>

text \<open>\<open>sep.join(parts)\<close>.\<close>

fun join :: "string \<Rightarrow> string list \<Rightarrow> string" where
  "join sep [] = []"
| "join sep [x] = x"
| "join sep (x # y # ys) = x @ sep @ join sep (y # ys)"

lemma size_member_py_type:
  "x \<in> set xs \<Longrightarrow> size (x :: py_type) < Suc (size_list size xs)"
  by (induction xs) auto

lemma hd_filter_member:
  "length (filter P xs) = 1 \<Longrightarrow> hd (filter P xs) \<in> set xs"
proof -
  assume "length (filter P xs) = 1"
  then have "filter P xs \<noteq> []" by auto
  then have "hd (filter P xs) \<in> set (filter P xs)" by (rule hd_in_set)
  then show ?thesis by simp
qed

text \<open>
  \<open>TypeScriptGenerator._type_to_ts\<close>. The second result is \<open>models_to_generate\<close>, the
  set the method adds model names to. The branches are in the order of the source:
  \<open>None\<close>, the table \<open>PYTHON_TO_TS_TYPES\<close>, \<open>Any\<close>, then the origins \<open>Union\<close>, \<open>list\<close>,
  \<open>dict\<close>, \<open>tuple\<close>, \<open>set\<close>, then Pydantic models, then other classes (the lookup of the
  class's name in a table keyed by classes never succeeds), then the fallback.
  \<open>types_to_ts\<close> is the list comprehension \<open>[self._type_to_ts(a, ...) for a in args]\<close>.
\<close>

function (sequential)
  type_to_ts :: "class_table \<Rightarrow> py_type \<Rightarrow> string fset \<Rightarrow> string \<times> string fset" and
  types_to_ts :: "class_table \<Rightarrow> py_type list \<Rightarrow> string fset \<Rightarrow> string list \<times> string fset"
where
  "type_to_ts ct TNone m = (''void'', m)"
| "type_to_ts ct TStr m = (''string'', m)"
| "type_to_ts ct TInt m = (''number'', m)"
| "type_to_ts ct TFloat m = (''number'', m)"
| "type_to_ts ct TBool m = (''boolean'', m)"
| "type_to_ts ct TBytes m = (''string'', m)"
| "type_to_ts ct TNoneType m = (''null'', m)"
| "type_to_ts ct TAny m = (''unknown'', m)"
| "type_to_ts ct (TUnion args) m =
     (let non_none_args = filter (\<lambda>a. a \<noteq> TNoneType) args in
      if length non_none_args = 1 \<and> TNoneType \<in> set args then
        (case type_to_ts ct (hd non_none_args) m of
           (inner, m') \<Rightarrow> (inner @ '' | null'', m'))
      else
        (case types_to_ts ct args m of
           (ts_types, m') \<Rightarrow> (join '' | '' ts_types, m')))"
| "type_to_ts ct (TList []) m = (''unknown[]'', m)"
| "type_to_ts ct (TList (a # _)) m =
     (case type_to_ts ct a m of (inner, m') \<Rightarrow> (inner @ ''[]'', m'))"
| "type_to_ts ct (TDict (k # v # _)) m =
     (case type_to_ts ct k m of
        (key_type, m') \<Rightarrow>
          (case type_to_ts ct v m' of
             (value_type, m'') \<Rightarrow>
               (''Record<''
                  @ (if key_type \<noteq> ''string'' \<and> key_type \<noteq> ''number'' then ''string'' else key_type)
                  @ '', '' @ value_type @ ''>'', m'')))"
| "type_to_ts ct (TDict _) m = (''Record<string, unknown>'', m)"
| "type_to_ts ct (TTuple []) m = (''unknown[]'', m)"
| "type_to_ts ct (TTuple args) m =
     (case types_to_ts ct args m of
        (inner_types, m') \<Rightarrow> (''['' @ join '', '' inner_types @ '']'', m'))"
| "type_to_ts ct (TSet []) m = (''unknown[]'', m)"
| "type_to_ts ct (TSet (a # _)) m =
     (case type_to_ts ct a m of (inner, m') \<Rightarrow> (inner @ ''[]'', m'))"
| "type_to_ts ct (TModel c) m =
     (case map_of ct c of
        Some cls \<Rightarrow> (model_name cls, finsert (model_name cls) m)
      | None \<Rightarrow> (''unknown'', m))"
| "type_to_ts ct (TClass type_name) m = (''unknown'', m)"
| "type_to_ts ct (TGeneric args) m = (''unknown'', m)"
| "type_to_ts ct TOther m = (''unknown'', m)"
| "types_to_ts ct [] m = ([], m)"
| "types_to_ts ct (a # as) m =
     (case type_to_ts ct a m of
        (t, m') \<Rightarrow> (case types_to_ts ct as m' of (ts, m'') \<Rightarrow> (t # ts, m'')))"
  by pat_completeness auto

termination
proof (relation "measure (\<lambda>x. case x of
          Inl (ct, t, m) \<Rightarrow> 2 * size t
        | Inr (ct, ts, m) \<Rightarrow> 2 * size_list size ts + 1)", goal_cases)
  case 1
  show ?case by simp
next
  case (2 ct args m x)
  then have "hd x \<in> set args" using hd_filter_member by blast
  then show ?case using size_member_py_type by fastforce
qed auto

text \<open>
  The string \<open>_type_to_ts\<close> returns and the names it adds, taken at the empty set;
  \<open>type_to_ts_acc\<close> below shows that the string does not depend on the set passed in and
  that the set only grows by these names.
\<close>

definition ts_type :: "class_table \<Rightarrow> py_type \<Rightarrow> string" where
  "ts_type ct t = fst (type_to_ts ct t {||})"

definition type_models :: "class_table \<Rightarrow> py_type \<Rightarrow> string fset" where
  "type_models ct t = snd (type_to_ts ct t {||})"

definition types_models :: "class_table \<Rightarrow> py_type list \<Rightarrow> string fset" where
  "types_models ct ts = snd (types_to_ts ct ts {||})"

lemma acc_eqI:
  assumes "\<And>m. f m = (s, m |\<union>| d)"
  shows "f m = (fst (f {||}), m |\<union>| snd (f {||}))"
  by (simp add: assms)

lemma types_to_ts_acc_aux:
  assumes "\<And>a m. a \<in> set ts \<Longrightarrow> type_to_ts ct a m = (ts_type ct a, m |\<union>| type_models ct a)"
  shows "types_to_ts ct ts m = (map (ts_type ct) ts, m |\<union>| types_models ct ts)"
  using assms
proof (induction ts arbitrary: m)
  case Nil
  show ?case by (simp add: types_models_def)
next
  case (Cons a as)
  have a: "\<And>m. type_to_ts ct a m = (ts_type ct a, m |\<union>| type_models ct a)"
    using Cons.prems by simp
  have as: "\<And>m. types_to_ts ct as m = (map (ts_type ct) as, m |\<union>| types_models ct as)"
    using Cons.IH Cons.prems by simp
  have "types_models ct (a # as) = type_models ct a |\<union>| types_models ct as"
    unfolding types_models_def[of ct "a # as"] by (simp add: a as)
  then show ?case by (simp add: a as funion_assoc)
qed

lemma type_to_ts_acc:
  "type_to_ts ct t m = (ts_type ct t, m |\<union>| type_models ct t)"
proof (induction t arbitrary: m)
  case (TUnion args)
  have l: "\<And>m. types_to_ts ct args m = (map (ts_type ct) args, m |\<union>| types_models ct args)"
    using TUnion by (intro types_to_ts_acc_aux) simp
  show ?case
  proof (cases "length (filter (\<lambda>a. a \<noteq> TNoneType) args) = 1 \<and> TNoneType \<in> set args")
    case True
    define x where "x = hd (filter (\<lambda>a. a \<noteq> TNoneType) args)"
    have "x \<in> set args"
      unfolding x_def using True hd_filter_member by blast
    then have h: "\<And>m. type_to_ts ct x m = (ts_type ct x, m |\<union>| type_models ct x)"
      using TUnion by simp
    have "\<And>m. type_to_ts ct (TUnion args) m = (ts_type ct x @ '' | null'', m |\<union>| type_models ct x)"
      by (simp only: type_to_ts.simps Let_def True if_True x_def[symmetric] h prod.case) simp
    then show ?thesis
      unfolding ts_type_def[of ct "TUnion args"] type_models_def[of ct "TUnion args"]
      by (rule acc_eqI)
  next
    case False
    have "\<And>m. type_to_ts ct (TUnion args) m
        = (join '' | '' (map (ts_type ct) args), m |\<union>| types_models ct args)"
      by (simp only: type_to_ts.simps Let_def False if_False l prod.case)
    then show ?thesis
      unfolding ts_type_def[of ct "TUnion args"] type_models_def[of ct "TUnion args"]
      by (rule acc_eqI)
  qed
next
  case (TList args)
  show ?case
  proof (cases args)
    case Nil
    then show ?thesis by (simp add: ts_type_def type_models_def)
  next
    case (Cons a as)
    then have h: "\<And>m. type_to_ts ct a m = (ts_type ct a, m |\<union>| type_models ct a)"
      using TList by simp
    have "\<And>m. type_to_ts ct (TList args) m = (ts_type ct a @ ''[]'', m |\<union>| type_models ct a)"
      using Cons by (simp add: h)
    then show ?thesis
      unfolding ts_type_def[of ct "TList args"] type_models_def[of ct "TList args"]
      by (rule acc_eqI)
  qed
next
  case (TSet args)
  show ?case
  proof (cases args)
    case Nil
    then show ?thesis by (simp add: ts_type_def type_models_def)
  next
    case (Cons a as)
    then have h: "\<And>m. type_to_ts ct a m = (ts_type ct a, m |\<union>| type_models ct a)"
      using TSet by simp
    have "\<And>m. type_to_ts ct (TSet args) m = (ts_type ct a @ ''[]'', m |\<union>| type_models ct a)"
      using Cons by (simp add: h)
    then show ?thesis
      unfolding ts_type_def[of ct "TSet args"] type_models_def[of ct "TSet args"]
      by (rule acc_eqI)
  qed
next
  case (TTuple args)
  have l: "\<And>m. types_to_ts ct args m = (map (ts_type ct) args, m |\<union>| types_models ct args)"
    using TTuple by (intro types_to_ts_acc_aux) simp
  show ?case
  proof (cases args)
    case Nil
    then show ?thesis by (simp add: ts_type_def type_models_def)
  next
    case (Cons a as)
    have "\<And>m. type_to_ts ct (TTuple args) m
        = (''['' @ join '', '' (map (ts_type ct) args) @ '']'', m |\<union>| types_models ct args)"
      using l unfolding Cons by simp
    then show ?thesis
      unfolding ts_type_def[of ct "TTuple args"] type_models_def[of ct "TTuple args"]
      by (rule acc_eqI)
  qed
next
  case (TDict args)
  consider (two) k v rest where "args = k # v # rest" | (few) "args = [] \<or> (\<exists>k. args = [k])"
    by (cases args; cases "tl args") auto
  then show ?case
  proof cases
    case two
    have k: "\<And>m. type_to_ts ct k m = (ts_type ct k, m |\<union>| type_models ct k)"
      using TDict two by simp
    have v: "\<And>m. type_to_ts ct v m = (ts_type ct v, m |\<union>| type_models ct v)"
      using TDict two by simp
    have "\<And>m. type_to_ts ct (TDict args) m
        = (''Record<'' @ (if ts_type ct k \<noteq> ''string'' \<and> ts_type ct k \<noteq> ''number''
                          then ''string'' else ts_type ct k) @ '', '' @ ts_type ct v @ ''>'',
           m |\<union>| (type_models ct k |\<union>| type_models ct v))"
      unfolding two by (simp add: k v funion_assoc)
    then show ?thesis
      unfolding ts_type_def[of ct "TDict args"] type_models_def[of ct "TDict args"]
      by (rule acc_eqI)
  next
    case few
    then show ?thesis by (auto simp add: ts_type_def type_models_def)
  qed
next
  case (TModel c)
  show ?case by (cases "map_of ct c") (simp_all add: ts_type_def type_models_def)
qed (simp_all add: ts_type_def type_models_def)

text \<open>
  C7. A Union whose arguments are one type other than \<open>NoneType\<close> together with \<open>NoneType\<close>
  is mapped to the mapped type followed by \<open>| null\<close>; every other Union is mapped to the
  mapped arguments, in the order of the arguments, joined by \<open>|\<close>. The set passed in has
  no influence on the string.
\<close>

theorem type_to_ts_union:
  "(filter (\<lambda>a. a \<noteq> TNoneType) args = [x] \<and> TNoneType \<in> set args \<longrightarrow>
      fst (type_to_ts ct (TUnion args) m) = ts_type ct x @ '' | null'') \<and>
   (\<not> (length (filter (\<lambda>a. a \<noteq> TNoneType) args) = 1 \<and> TNoneType \<in> set args) \<longrightarrow>
      fst (type_to_ts ct (TUnion args) m) = join '' | '' (map (ts_type ct) args))"
proof (intro conjI impI)
  assume a: "filter (\<lambda>a. a \<noteq> TNoneType) args = [x] \<and> TNoneType \<in> set args"
  then have c: "length (filter (\<lambda>a. a \<noteq> TNoneType) args) = 1 \<and> TNoneType \<in> set args"
    by simp
  have x: "hd (filter (\<lambda>a. a \<noteq> TNoneType) args) = x"
    using a by simp
  have "type_to_ts ct (TUnion args) m
      = (case type_to_ts ct x m of (inner, m') \<Rightarrow> (inner @ '' | null'', m'))"
    by (simp only: type_to_ts.simps Let_def c if_True x) simp
  then show "fst (type_to_ts ct (TUnion args) m) = ts_type ct x @ '' | null''"
    by (simp add: type_to_ts_acc [of ct x])
next
  assume c: "\<not> (length (filter (\<lambda>a. a \<noteq> TNoneType) args) = 1 \<and> TNoneType \<in> set args)"
  have l: "types_to_ts ct args m = (map (ts_type ct) args, m |\<union>| types_models ct args)"
    by (rule types_to_ts_acc_aux) (rule type_to_ts_acc)
  have "type_to_ts ct (TUnion args) m
      = (case types_to_ts ct args m of (ts_types, m') \<Rightarrow> (join '' | '' ts_types, m'))"
    by (simp only: type_to_ts.simps Let_def c if_False)
  then show "fst (type_to_ts ct (TUnion args) m) = join '' | '' (map (ts_type ct) args)"
    by (simp add: l)
qed

theorem type_to_ts_union_witness:
  "fst (type_to_ts [] (TUnion [TInt, TNoneType]) {||}) = ''number | null'' \<and>
   fst (type_to_ts [] (TUnion [TNoneType, TList [TStr]]) {||}) = ''string[] | null'' \<and>
   fst (type_to_ts [] (TUnion [TInt, TStr, TNoneType]) {||}) = ''number | string | null''"
  using type_to_ts_union [of "[TInt, TNoneType]" TInt "[]" "{||}"]
    type_to_ts_union [of "[TNoneType, TList [TStr]]" "TList [TStr]" "[]" "{||}"]
    type_to_ts_union [of "[TInt, TStr, TNoneType]" TInt "[]" "{||}"]
  by (simp add: ts_type_def)

section \<open>Registration: name conflicts\<close>

definition example_fn :: "string \<Rightarrow> string \<Rightarrow> py_function" where
  "example_fn n md =
     \<lparr>fn_name = n, fn_params = [], fn_hints = [], fn_doc = None, fn_module = md,
      fn_is_coroutine = True, fn_call = (\<lambda>kwargs. Ran [] (Returned VNone))\<rparr>"

definition example_cmd :: "string \<Rightarrow> string \<Rightarrow> command_info" where
  "example_cmd n md =
     \<lparr>name = n, func = example_fn n md, params = [], return_type = TNone, is_async = True,
      docstring = None, module = md, has_channel = False\<rparr>"

definition example_model :: "string \<Rightarrow> (string \<times> py_type) list \<Rightarrow> model_class" where
  "example_model n fs =
     \<lparr>model_name = n, model_doc = None,
      model_fields = map (\<lambda>(f, t). (f, \<lparr>annotation = t, is_required = True, description = None\<rparr>)) fs\<rparr>"

text \<open>
  C4. Registering a command whose name is taken raises \<open>ValueError\<close>; the message holds the
  module of the command registered first and the module of the new one, and the registry
  is the one before the call. Registering a model whose name is taken changes nothing:
  the model registered first stays.
\<close>

theorem register_conflict_and_model_noop:
  "(map_of (commands reg) (name cmd) = Some existing \<longrightarrow>
      register reg cmd
        = (Inl (ValueError (conflict_message (name cmd) (module existing) (module cmd))), reg) \<and>
      (\<exists>a b c. conflict_message (name cmd) (module existing) (module cmd)
                 = a @ module existing @ b @ module cmd @ c)) \<and>
   (map_of (models reg) (model_name model) = Some first \<longrightarrow>
      register_model reg model = reg \<and>
      map_of (models (register_model reg model)) (model_name model) = Some first)"
proof (intro conjI impI)
  assume "map_of (commands reg) (name cmd) = Some existing"
  then show "register reg cmd
      = (Inl (ValueError (conflict_message (name cmd) (module existing) (module cmd))), reg)"
    by (simp add: register_def)
next
  show "\<exists>a b c. conflict_message (name cmd) (module existing) (module cmd)
                 = a @ module existing @ b @ module cmd @ c"
    unfolding conflict_message_def
    by (metis append.assoc)
next
  assume m: "map_of (models reg) (model_name model) = Some first"
  then show "register_model reg model = reg"
    by (simp add: register_model_def)
  then show "map_of (models (register_model reg model)) (model_name model) = Some first"
    using m by simp
qed

theorem register_conflict_and_model_noop_witness:
  "register (snd (register empty_registry (example_cmd ''ping'' ''users''))) (example_cmd ''ping'' ''tasks'')
     = (Inl (ValueError (conflict_message ''ping'' ''users'' ''tasks'')),
        snd (register empty_registry (example_cmd ''ping'' ''users''))) \<and>
   register_model (register_model empty_registry (example_model ''User'' [(''id'', TInt)]))
       (example_model ''User'' [(''name'', TStr)])
     = register_model empty_registry (example_model ''User'' [(''id'', TInt)])"
  using register_conflict_and_model_noop
    [where reg = "snd (register empty_registry (example_cmd ''ping'' ''users''))"
       and cmd = "example_cmd ''ping'' ''tasks''" and existing = "example_cmd ''ping'' ''users''"]
    register_conflict_and_model_noop
    [where reg = "register_model empty_registry (example_model ''User'' [(''id'', TInt)])"
       and model = "example_model ''User'' [(''name'', TStr)]"
       and first = "example_model ''User'' [(''id'', TInt)]"]
  by (simp add: register_def register_model_def empty_registry_def example_cmd_def example_model_def)

section \<open>Channels\<close>

text \<open>
  bridge.py imports \<open>Channel\<close> from channel.py, which is not among the sources. The
  dispatcher and the stream endpoint use four operations of it: \<open>send\<close>, \<open>send_error\<close>
  and \<open>close\<close> on the producer's side and asynchronous iteration on the consumer's side.
\<close>

datatype frame = DataFrame py_value | ErrorFrame string | CloseFrame

datatype chan_state = Open | Closed

record channel =
  chan_id :: string
  chan_queue :: "frame list"
  chan_state :: chan_state

text \<open>
  Modelled from the spec: the \<open>event\<close> of a frame as it is serialised, one of
  \<open>message\<close>, \<open>error\<close>, \<open>close\<close> (channel.py, with the message class, is missing).
\<close>

fun event :: "frame \<Rightarrow> string" where
  "event (DataFrame payload) = ''message''"
| "event (ErrorFrame info) = ''error''"
| "event CloseFrame = ''close''"

text \<open>
  Modelled from the spec: \<open>create\<close> of the channel manager (channel.py is missing); a new
  channel has a fresh id, given here by the caller, state \<open>Open\<close> and an empty queue.
\<close>

definition create :: "string \<Rightarrow> channel" where
  "create cid = \<lparr>chan_id = cid, chan_queue = [], chan_state = Open\<rparr>"

text \<open>
  Modelled from the spec: \<open>Channel.send\<close> (channel.py is missing); a data frame is
  enqueued, and \<open>send\<close> after a terminal frame is a no-op.
\<close>

definition send :: "channel \<Rightarrow> py_value \<Rightarrow> channel" where
  "send ch payload =
     (if chan_state ch = Closed then ch
      else ch\<lparr>chan_queue := chan_queue ch @ [DataFrame payload]\<rparr>)"

text \<open>
  Modelled from the spec: \<open>Channel.send_error\<close> (channel.py is missing); it enqueues the
  terminal \<open>error\<close> frame and makes the channel terminal, is idempotent, and no frame is
  accepted after a terminal frame.
\<close>

definition send_error :: "channel \<Rightarrow> string \<Rightarrow> channel" where
  "send_error ch info =
     (if chan_state ch = Closed then ch
      else ch\<lparr>chan_queue := chan_queue ch @ [ErrorFrame info], chan_state := Closed\<rparr>)"

text \<open>
  Modelled from the spec: \<open>Channel.close\<close> (channel.py is missing); it enqueues the
  terminal \<open>close\<close> frame and makes the channel terminal, is idempotent, and no frame is
  accepted after a terminal frame.
\<close>

definition close :: "channel \<Rightarrow> channel" where
  "close ch =
     (if chan_state ch = Closed then ch
      else ch\<lparr>chan_queue := chan_queue ch @ [CloseFrame], chan_state := Closed\<rparr>)"

text \<open>The producer's calls on its channel, one after the other.\<close>

fun apply_op :: "chan_op \<Rightarrow> channel \<Rightarrow> channel" where
  "apply_op (Send payload) ch = send ch payload"
| "apply_op (SendError info) ch = send_error ch info"
| "apply_op Close ch = close ch"

definition run_ops :: "chan_op list \<Rightarrow> channel \<Rightarrow> channel" where
  "run_ops ops ch = fold apply_op ops ch"

text \<open>
  The loop of \<open>event_generator\<close> in \<open>stream_channel\<close> (bridge.py): every frame taken from
  the channel is yielded, and the loop breaks after a frame whose event is \<open>close\<close> or
  \<open>error\<close>. The result is the sequence of frames yielded to the consumer.
\<close>

fun deliver :: "frame list \<Rightarrow> frame list" where
  "deliver [] = []"
| "deliver (msg # rest) =
     msg # (if event msg = ''close'' \<or> event msg = ''error'' then [] else deliver rest)"

text \<open>
  Modelled from the spec: asynchronous iteration over a channel (channel.py is missing)
  yields the queued frames first in, first out; \<open>event_generator\<close> runs its loop over them.
\<close>

definition event_generator :: "channel \<Rightarrow> frame list" where
  "event_generator ch = deliver (chan_queue ch)"

section \<open>The dispatcher (bridge.py)\<close>

text \<open>
  \<open>model_dump\<close> of Pydantic: a model instance becomes a dictionary of its fields, models
  nested in fields, lists and dictionaries included.
\<close>

primrec model_dump :: "py_value \<Rightarrow> py_value" where
  "model_dump VNone = VNone"
| "model_dump (VBool b) = VBool b"
| "model_dump (VInt i) = VInt i"
| "model_dump (VStr s) = VStr s"
| "model_dump (VList items) = VList (map model_dump items)"
| "model_dump (VDict entries) = VDict (map (map_prod id model_dump) entries)"
| "model_dump (VModel cls entries) = VDict (map (map_prod id model_dump) entries)"
| "model_dump (VChannel cid) = VChannel cid"

fun is_model_instance :: "py_value \<Rightarrow> bool" where
  "is_model_instance (VModel cls entries) = True"
| "is_model_instance _ = False"

text \<open>
  The loop that builds \<open>kwargs\<close> in both dispatch methods: for each declared parameter
  name, in order, the argument of that name is copied if the argument map has one.
\<close>

definition build_kwargs ::
  "command_info \<Rightarrow> (string \<times> py_value) list \<Rightarrow> (string \<times> py_value) list \<Rightarrow> (string \<times> py_value) list" where
  "build_kwargs cmd args kwargs0 =
     fold (\<lambda>param_name kwargs.
             case map_of args param_name of
               Some v \<Rightarrow> AList.update param_name v kwargs
             | None \<Rightarrow> kwargs)
          (map fst (params cmd)) kwargs0"

text \<open>The serialisation of a result at the end of \<open>_execute_command\<close>.\<close>

fun serialize_result :: "py_value \<Rightarrow> py_value" where
  "serialize_result (VModel cls entries) = model_dump (VModel cls entries)"
| "serialize_result (VList items) =
     VList (map (\<lambda>item. if is_model_instance item then model_dump item else item) items)"
| "serialize_result result = result"

text \<open>
  The name of the type of a value, as it appears in messages of the interpreter.
\<close>

fun type_name :: "py_value \<Rightarrow> string" where
  "type_name VNone = ''NoneType''"
| "type_name (VBool b) = ''bool''"
| "type_name (VInt i) = ''int''"
| "type_name (VStr s) = ''str''"
| "type_name (VList items) = ''list''"
| "type_name (VDict entries) = ''dict''"
| "type_name (VModel cls entries) = cls"
| "type_name (VChannel cid) = ''Channel''"

text \<open>
  \<open>await cmd.func(**kwargs)\<close>, the expression both dispatch methods evaluate.
  \<open>cmd.func\<close> is the function as it was decorated (the decorator stores \<open>fn\<close>, not its
  \<open>async_wrapper\<close>). A failure to bind is a \<open>TypeError\<close>. A coroutine function gives a
  coroutine, which \<open>await\<close> runs. A plain function runs in the call and gives its result,
  a value that is not awaitable, on which \<open>await\<close> raises \<open>TypeError\<close> (the message is
  the one of CPython up to 3.13).
\<close>

definition await_call :: "py_function \<Rightarrow> (string \<times> py_value) list \<Rightarrow> chan_op list \<times> outcome" where
  "await_call fn kwargs =
     (case fn_call fn kwargs of
        BindFailure e \<Rightarrow> ([], Raised \<lparr>exc_class = TypeError, message = e\<rparr>)
      | Ran ops (Raised e) \<Rightarrow> (ops, Raised e)
      | Ran ops (Returned result) \<Rightarrow>
          (if fn_is_coroutine fn then (ops, Returned result)
           else (ops, Raised \<lparr>exc_class = TypeError,
                   message = ''object '' @ type_name result @ '' can'' @ [CHR 0x27]
                     @ ''t be used in '' @ [CHR 0x27] @ ''await'' @ [CHR 0x27] @ '' expression''\<rparr>)))"

text \<open>
  \<open>Bridge._execute_command\<close>. Everything from the building of \<open>kwargs\<close> to the
  serialisation is inside one \<open>try\<close>; \<open>except TypeError\<close> comes first and raises
  \<open>ValidationError\<close>, \<open>except Exception\<close> raises \<open>CommandExecutionError\<close>, and what
  neither catches leaves the method.
\<close>

definition execute_command :: "command_info \<Rightarrow> (string \<times> py_value) list \<Rightarrow> bridge_error + py_value" where
  "execute_command cmd args =
     (case await_call (func cmd) (build_kwargs cmd args []) of
        (ops, Returned result) \<Rightarrow> Inr (serialize_result result)
      | (ops, Raised e) \<Rightarrow>
          (if is_type_error e then Inl (ValidationError (''Invalid arguments: '' @ message e))
           else if is_exception e then Inl (CommandExecutionError (message e))
           else Inl (Uncaught e)))"

text \<open>
  \<open>Bridge._execute_channel_command\<close>. \<open>kwargs\<close> starts as \<open>{"channel": channel}\<close>. The
  handler's calls on the channel take effect as it runs; after a normal return of the
  awaited call the channel is closed, \<open>except Exception\<close> sends the error, and what it does
  not catch leaves the method. The first component of the result is the outcome for the
  caller of the method.
\<close>

definition execute_channel_command ::
  "command_info \<Rightarrow> (string \<times> py_value) list \<Rightarrow> channel \<Rightarrow> (py_exception + unit) \<times> channel" where
  "execute_channel_command cmd args ch =
     (case await_call (func cmd) (build_kwargs cmd args [(''channel'', VChannel (chan_id ch))]) of
        (ops, Returned result) \<Rightarrow> (Inr (), close (run_ops ops ch))
      | (ops, Raised e) \<Rightarrow>
          (if is_exception e then (Inr (), send_error (run_ops ops ch) (message e))
           else (Inl e, run_ops ops ch)))"

section \<open>Frames seen by the consumer of a channel\<close>

text \<open>
  What a sequence of producer calls amounts to: the payloads sent before the first
  terminal call, and the frame of the first terminal call (none when there is none).
\<close>

fun is_terminal :: "frame \<Rightarrow> bool" where
  "is_terminal (DataFrame payload) = False"
| "is_terminal (ErrorFrame info) = True"
| "is_terminal CloseFrame = True"

fun is_terminal_op :: "chan_op \<Rightarrow> bool" where
  "is_terminal_op (Send payload) = False"
| "is_terminal_op (SendError info) = True"
| "is_terminal_op Close = True"

fun sent_before_terminal :: "chan_op list \<Rightarrow> py_value list" where
  "sent_before_terminal [] = []"
| "sent_before_terminal (Send payload # ops) = payload # sent_before_terminal ops"
| "sent_before_terminal (op # ops) = []"

fun first_terminal :: "chan_op list \<Rightarrow> frame list" where
  "first_terminal [] = []"
| "first_terminal (Send payload # ops) = first_terminal ops"
| "first_terminal (SendError info # ops) = [ErrorFrame info]"
| "first_terminal (Close # ops) = [CloseFrame]"

lemma run_ops_closed:
  "chan_state ch = Closed \<Longrightarrow> run_ops ops ch = ch"
proof (induction ops)
  case Nil
  show ?case by (simp add: run_ops_def)
next
  case (Cons op ops)
  have "apply_op op ch = ch"
    using Cons.prems by (cases op) (simp_all add: send_def send_error_def close_def)
  then show ?case using Cons by (simp add: run_ops_def)
qed

lemma run_ops_Cons: "run_ops (op # ops) ch = run_ops ops (apply_op op ch)"
  by (simp add: run_ops_def)

lemma run_ops_append: "run_ops (ops @ later) ch = run_ops later (run_ops ops ch)"
  by (simp add: run_ops_def)

lemma run_ops_open_queue:
  "chan_state ch = Open \<Longrightarrow>
     chan_queue (run_ops ops ch)
       = chan_queue ch @ map DataFrame (sent_before_terminal ops) @ first_terminal ops"
proof (induction ops arbitrary: ch)
  case Nil
  show ?case by (simp add: run_ops_def)
next
  case (Cons op ops)
  show ?case
  proof (cases op)
    case (Send payload)
    have "chan_state (send ch payload) = Open"
      using Cons.prems by (simp add: send_def)
    from Cons.IH [OF this] show ?thesis
      using Cons.prems Send by (simp add: run_ops_Cons send_def)
  next
    case (SendError info)
    have "chan_state (send_error ch info) = Closed"
      using Cons.prems by (simp add: send_error_def)
    then have "run_ops ops (send_error ch info) = send_error ch info"
      by (rule run_ops_closed)
    then show ?thesis
      using Cons.prems SendError by (simp add: run_ops_Cons send_error_def)
  next
    case Close
    have "chan_state (close ch) = Closed"
      using Cons.prems by (simp add: close_def)
    then have "run_ops ops (close ch) = close ch"
      by (rule run_ops_closed)
    then show ?thesis
      using Cons.prems Close by (simp add: run_ops_Cons close_def)
  qed
qed

lemma run_ops_terminal_closed:
  "list_ex is_terminal_op ops \<Longrightarrow> chan_state (run_ops ops ch) = Closed"
proof (induction ops arbitrary: ch)
  case Nil
  then show ?case by simp
next
  case (Cons op ops)
  show ?case
  proof (cases "chan_state ch")
    case Closed
    then show ?thesis by (simp add: run_ops_closed)
  next
    case Open
    show ?thesis
    proof (cases op)
      case (Send payload)
      then show ?thesis using Cons by (simp add: run_ops_Cons)
    next
      case (SendError info)
      have "chan_state (send_error ch info) = Closed"
        by (simp add: send_error_def)
      then show ?thesis using SendError by (simp add: run_ops_Cons run_ops_closed)
    next
      case Close
      have "chan_state (close ch) = Closed"
        by (simp add: close_def)
      then show ?thesis using Close by (simp add: run_ops_Cons run_ops_closed)
    qed
  qed
qed

lemma deliver_data_then_terminal:
  "deliver (map DataFrame payloads @ first_terminal ops)
     = map DataFrame payloads @ first_terminal ops"
proof (induction payloads)
  case Nil
  show ?case by (induction ops rule: first_terminal.induct) simp_all
next
  case (Cons p ps)
  then show ?case by simp
qed

lemma first_terminal_shape:
  "first_terminal ops = [] \<and> \<not> list_ex is_terminal_op ops \<or>
   (\<exists>f. first_terminal ops = [f] \<and> is_terminal f \<and> list_ex is_terminal_op ops)"
  by (induction ops rule: first_terminal.induct) simp_all

lemma filter_terminal_data: "filter is_terminal (map DataFrame payloads) = []"
  by (induction payloads) simp_all

text \<open>
  C8. Whatever calls the producer makes on a new channel, the consumer is given the data
  frames of the payloads sent before the first terminal call, in the order they were
  sent, followed by the frame of that call. At most one terminal frame is delivered; if
  the producer made a terminal call, exactly one is, as the last frame, and calls made
  after it leave the channel as it was.
\<close>

theorem channel_frame_sequence:
  "event_generator (run_ops ops (create cid))
     = map DataFrame (sent_before_terminal ops) @ first_terminal ops \<and>
   length (filter is_terminal (event_generator (run_ops ops (create cid)))) \<le> 1 \<and>
   (list_ex is_terminal_op ops \<longrightarrow>
      event_generator (run_ops ops (create cid)) \<noteq> [] \<and>
      is_terminal (last (event_generator (run_ops ops (create cid)))) \<and>
      length (filter is_terminal (event_generator (run_ops ops (create cid)))) = 1 \<and>
      run_ops (ops @ later) (create cid) = run_ops ops (create cid))"
proof -
  have d: "event_generator (run_ops ops (create cid))
      = map DataFrame (sent_before_terminal ops) @ first_terminal ops"
    unfolding event_generator_def
    using run_ops_open_queue [of "create cid" ops]
    by (simp add: create_def deliver_data_then_terminal)
  have closed: "list_ex is_terminal_op ops \<Longrightarrow>
      run_ops (ops @ later) (create cid) = run_ops ops (create cid)"
    by (simp add: run_ops_append run_ops_closed run_ops_terminal_closed)
  show ?thesis
    unfolding d using first_terminal_shape [of ops] closed
    by (auto simp add: filter_terminal_data)
qed

theorem channel_frame_sequence_witness:
  "list_ex is_terminal_op [Send (VInt 1), Send (VInt 2), Close, Send (VInt 3), SendError ''late''] \<and>
   event_generator (run_ops [Send (VInt 1), Send (VInt 2), Close, Send (VInt 3), SendError ''late''] (create ''c1''))
     = [DataFrame (VInt 1), DataFrame (VInt 2), CloseFrame] \<and>
   run_ops ([Send (VInt 1), Send (VInt 2), Close, Send (VInt 3), SendError ''late''] @ [Send (VInt 4)]) (create ''c1'')
     = run_ops [Send (VInt 1), Send (VInt 2), Close, Send (VInt 3), SendError ''late''] (create ''c1'')"
  using channel_frame_sequence
    [of "[Send (VInt 1), Send (VInt 2), Close, Send (VInt 3), SendError ''late'']" "''c1''" "[Send (VInt 4)]"]
  by simp

section \<open>Dispatching a streaming command\<close>

lemma build_kwargs_lookup:
  "map_of (build_kwargs cmd args kwargs0) k
     = (if k \<in> fst ` set (params cmd) \<and> map_of args k \<noteq> None then map_of args k
        else map_of kwargs0 k)"
proof -
  have "map_of (fold (\<lambda>param_name kwargs.
             case map_of args param_name of
               Some v \<Rightarrow> AList.update param_name v kwargs
             | None \<Rightarrow> kwargs) ps kw) k
     = (if k \<in> set ps \<and> map_of args k \<noteq> None then map_of args k else map_of kw k)"
    for ps kw
  proof (induction ps arbitrary: kw)
    case Nil
    show ?case by simp
  next
    case (Cons p ps)
    show ?case
      by (cases "map_of args p") (auto simp add: Cons.IH update_conv')
  qed
  then show ?thesis by (simp add: build_kwargs_def)
qed

lemma await_call_coroutine:
  "fn_is_coroutine fn \<Longrightarrow>
     await_call fn kwargs
       = (case fn_call fn kwargs of
            BindFailure e \<Rightarrow> ([], Raised \<lparr>exc_class = TypeError, message = e\<rparr>)
          | Ran ops out \<Rightarrow> (ops, out))"
  by (simp add: await_call_def split: call_result.split outcome.split)

definition example_stream_cmd :: "bool \<Rightarrow> call_result \<Rightarrow> command_info" where
  "example_stream_cmd coroutine r =
     \<lparr>name = ''tick'',
      func = \<lparr>fn_name = ''tick'', fn_params = [''count'', ''channel''],
              fn_hints = [(''count'', TInt), (''channel'', TGeneric [TInt])], fn_doc = None,
              fn_module = ''tasks'', fn_is_coroutine = coroutine, fn_call = (\<lambda>kwargs. r)\<rparr>,
      params = [(''count'', TInt)], return_type = TNone, is_async = coroutine,
      docstring = None, module = ''tasks'', has_channel = True\<rparr>"

text \<open>
  C6, as stated, fails: a handler (a coroutine function) that has sent one payload and is
  then cancelled raises \<open>asyncio.CancelledError\<close>, which is not an \<open>Exception\<close>. The
  exception reaches the caller of the dispatcher and no error frame is sent: the channel
  stays open with the data frame only.
\<close>

theorem execute_channel_command_cancelled:
  "execute_channel_command
       (example_stream_cmd True
          (Ran [Send (VInt 1)] (Raised \<lparr>exc_class = BaseExceptionOnly, message = ''cancelled''\<rparr>)))
       [(''count'', VInt 1)] (create ''c1'')
     = (Inl \<lparr>exc_class = BaseExceptionOnly, message = ''cancelled''\<rparr>,
        \<lparr>chan_id = ''c1'', chan_queue = [DataFrame (VInt 1)], chan_state = Open\<rparr>)"
  by (simp add: execute_channel_command_def await_call_def example_stream_cmd_def is_exception_def
        create_def run_ops_def send_def)

text \<open>
  A handler that is a plain function and returns: the \<open>await\<close> of the dispatcher raises
  \<open>TypeError\<close> on its result, so the channel gets an error frame and not the \<open>close\<close>
  frame.
\<close>

lemma execute_channel_command_plain_function:
  "execute_channel_command (example_stream_cmd False (Ran [] (Returned VNone)))
       [(''count'', VInt 1)] (create ''c1'')
     = (Inr (),
        \<lparr>chan_id = ''c1'',
         chan_queue = [ErrorFrame (''object NoneType can'' @ [CHR 0x27] @ ''t be used in ''
                         @ [CHR 0x27] @ ''await'' @ [CHR 0x27] @ '' expression'')],
         chan_state = Closed\<rparr>)"
  by (simp add: execute_channel_command_def await_call_def example_stream_cmd_def is_exception_def
        create_def run_ops_def send_error_def)

text \<open>
  C6, amended, for a handler that is a coroutine function. When the handler returns, the
  channel it left is closed: if it was still open, the \<open>close\<close> frame is appended. When
  the handler raises an instance of \<open>Exception\<close>, or the call fails to bind, the error is
  sent on the channel the handler left (if it was still open, the \<open>error\<close> frame with the
  message of the exception is appended) and the caller of the dispatcher sees a normal
  return. An exception that is not an instance of \<open>Exception\<close> reaches the caller, and
  the channel is left as the handler left it.
\<close>

theorem execute_channel_command_outcomes:
  assumes "fn_is_coroutine (func cmd)"
  shows
  "(\<forall>ops result.
      fn_call (func cmd) (build_kwargs cmd args [(''channel'', VChannel (chan_id ch))])
        = Ran ops (Returned result) \<longrightarrow>
      execute_channel_command cmd args ch = (Inr (), close (run_ops ops ch)) \<and>
      chan_state (snd (execute_channel_command cmd args ch)) = Closed \<and>
      (chan_state (run_ops ops ch) = Open \<longrightarrow>
         chan_queue (snd (execute_channel_command cmd args ch))
           = chan_queue (run_ops ops ch) @ [CloseFrame])) \<and>
   (\<forall>ops e.
      fn_call (func cmd) (build_kwargs cmd args [(''channel'', VChannel (chan_id ch))])
        = Ran ops (Raised e) \<and> is_exception e \<longrightarrow>
      execute_channel_command cmd args ch = (Inr (), send_error (run_ops ops ch) (message e)) \<and>
      chan_state (snd (execute_channel_command cmd args ch)) = Closed \<and>
      (chan_state (run_ops ops ch) = Open \<longrightarrow>
         chan_queue (snd (execute_channel_command cmd args ch))
           = chan_queue (run_ops ops ch) @ [ErrorFrame (message e)])) \<and>
   (\<forall>e.
      fn_call (func cmd) (build_kwargs cmd args [(''channel'', VChannel (chan_id ch))])
        = BindFailure e \<longrightarrow>
      execute_channel_command cmd args ch = (Inr (), send_error ch e) \<and>
      chan_state (snd (execute_channel_command cmd args ch)) = Closed \<and>
      (chan_state ch = Open \<longrightarrow>
         chan_queue (snd (execute_channel_command cmd args ch)) = chan_queue ch @ [ErrorFrame e])) \<and>
   (\<forall>ops e.
      fn_call (func cmd) (build_kwargs cmd args [(''channel'', VChannel (chan_id ch))])
        = Ran ops (Raised e) \<and> \<not> is_exception e \<longrightarrow>
      execute_channel_command cmd args ch = (Inl e, run_ops ops ch))"
proof -
  have closed: "\<And>c. chan_state (close c) = Closed"
    by (simp add: close_def)
  have errored: "\<And>c i. chan_state (send_error c i) = Closed"
    by (simp add: send_error_def)
  have close_open: "\<And>c. chan_state c = Open \<Longrightarrow> chan_queue (close c) = chan_queue c @ [CloseFrame]"
    by (simp add: close_def)
  have error_open: "\<And>c i. chan_state c = Open \<Longrightarrow> chan_queue (send_error c i) = chan_queue c @ [ErrorFrame i]"
    by (simp add: send_error_def)
  have bind: "is_exception \<lparr>exc_class = TypeError, message = e\<rparr>" for e
    by (simp add: is_exception_def)
  show ?thesis
    by (simp add: execute_channel_command_def await_call_coroutine [OF assms] run_ops_def
          closed errored close_open error_open bind)
qed

theorem execute_channel_command_outcomes_witness:
  "fn_is_coroutine (func (example_stream_cmd True (Ran [Send (VInt 1)] (Returned VNone)))) \<and>
   execute_channel_command
       (example_stream_cmd True (Ran [Send (VInt 1)] (Returned VNone))) [(''count'', VInt 1)] (create ''c1'')
     = (Inr (), \<lparr>chan_id = ''c1'', chan_queue = [DataFrame (VInt 1), CloseFrame], chan_state = Closed\<rparr>) \<and>
   execute_channel_command
       (example_stream_cmd True (Ran [Send (VInt 1)] (Raised \<lparr>exc_class = OtherException, message = ''boom''\<rparr>)))
       [(''count'', VInt 1)] (create ''c1'')
     = (Inr (), \<lparr>chan_id = ''c1'', chan_queue = [DataFrame (VInt 1), ErrorFrame ''boom''], chan_state = Closed\<rparr>)"
proof -
  have c: "fn_is_coroutine (func (example_stream_cmd True r))" for r
    by (simp add: example_stream_cmd_def)
  show ?thesis
    using execute_channel_command_outcomes
      [OF c [of "Ran [Send (VInt 1)] (Returned VNone)"],
       where args = "[(''count'', VInt 1)]" and ch = "create ''c1''"]
      execute_channel_command_outcomes
      [OF c [of "Ran [Send (VInt 1)] (Raised \<lparr>exc_class = OtherException, message = ''boom''\<rparr>)"],
       where args = "[(''count'', VInt 1)]" and ch = "create ''c1''"]
    by (simp add: example_stream_cmd_def create_def run_ops_def send_def close_def send_error_def
          is_exception_def)
qed

section \<open>Dispatching a request\<close>

lemma execute_command_outcomes:
  "execute_command cmd args =
     (case await_call (func cmd) (build_kwargs cmd args []) of
        (ops, Returned result) \<Rightarrow> Inr (serialize_result result)
      | (ops, Raised e) \<Rightarrow>
          (if is_type_error e then Inl (ValidationError (''Invalid arguments: '' @ message e))
           else if is_exception e then Inl (CommandExecutionError (message e))
           else Inl (Uncaught e)))"
  by (simp add: execute_command_def)

lemma execute_command_not_type_error:
  "fn_call (func cmd) (build_kwargs cmd args []) = Ran ops (Raised e) \<Longrightarrow>
   exc_class e = OtherException \<Longrightarrow>
     execute_command cmd args = Inl (CommandExecutionError (message e))"
  by (simp add: execute_command_def await_call_def is_type_error_def is_exception_def)

lemma execute_command_bind_failure:
  "fn_call (func cmd) (build_kwargs cmd args []) = BindFailure e \<Longrightarrow>
     execute_command cmd args = Inl (ValidationError (''Invalid arguments: '' @ e))"
  by (simp add: execute_command_def await_call_def is_type_error_def)

lemma execute_command_plain_function:
  "\<not> fn_is_coroutine (func cmd) \<Longrightarrow>
   fn_call (func cmd) (build_kwargs cmd args []) = Ran ops (Returned result) \<Longrightarrow>
     execute_command cmd args
       = Inl (ValidationError (''Invalid arguments: object '' @ type_name result @ '' can''
               @ [CHR 0x27] @ ''t be used in '' @ [CHR 0x27] @ ''await'' @ [CHR 0x27] @ '' expression''))"
  by (simp add: execute_command_def await_call_def is_type_error_def)

text \<open>
  A command without parameters, a coroutine function whose body raises a \<open>TypeError\<close> of
  its own, as \<open>None + 1\<close> does: the arguments bind, the failure is the handler's.
\<close>

definition type_error_in_body_cmd :: command_info where
  "type_error_in_body_cmd =
     \<lparr>name = ''total'',
      func = \<lparr>fn_name = ''total'', fn_params = [], fn_hints = [(''return'', TInt)], fn_doc = None,
              fn_module = ''tasks'', fn_is_coroutine = True,
              fn_call = (\<lambda>kwargs. Ran [] (Raised \<lparr>exc_class = TypeError,
                           message = ''unsupported operand type(s) for +''\<rparr>))\<rparr>,
      params = [], return_type = TInt, is_async = True,
      docstring = None, module = ''tasks'', has_channel = False\<rparr>"

text \<open>
  C5. The keys bound are the declared parameter names present in the argument map
  (\<open>build_kwargs_lookup\<close>), a failure to bind gives \<open>ValidationError\<close>, and a failure of the
  handler that is an \<open>Exception\<close> but not a \<open>TypeError\<close> gives \<open>CommandExecutionError\<close> with
  its message. A \<open>TypeError\<close> raised by the handler's own body, with nothing wrong in the
  binding, is reported as \<open>ValidationError\<close> too: \<open>except TypeError\<close> covers the whole
  \<open>try\<close>.
\<close>

theorem execute_command_type_error_in_body:
  "build_kwargs type_error_in_body_cmd [] [] = [] \<and>
   execute_command type_error_in_body_cmd []
     = Inl (ValidationError ''Invalid arguments: unsupported operand type(s) for +'')"
  by (simp add: execute_command_def await_call_def build_kwargs_def type_error_in_body_cmd_def
        is_type_error_def)

section \<open>Collecting the models a type hint reaches (registry.py)\<close>

text \<open>
  \<open>has_origin\<close>: the attribute \<open>__origin__\<close> of the hint is not \<open>None\<close>.
  \<open>model_class_of\<close>: the hint is a class and a subclass of \<open>BaseModel\<close>; the result is the
  class.
\<close>

fun has_origin :: "py_type \<Rightarrow> bool" where
  "has_origin (TUnion args) = True"
| "has_origin (TList args) = True"
| "has_origin (TDict args) = True"
| "has_origin (TTuple args) = True"
| "has_origin (TSet args) = True"
| "has_origin (TGeneric args) = True"
| "has_origin _ = False"

fun model_class_of :: "class_table \<Rightarrow> py_type \<Rightarrow> model_class option" where
  "model_class_of ct (TModel c) = map_of ct c"
| "model_class_of ct _ = None"

text \<open>
  The names of the classes of the table that the model registry does not hold yet; their
  number is what decreases when a model is added.
\<close>

definition unregistered :: "class_table \<Rightarrow> (string \<times> model_class) list \<Rightarrow> string set" where
  "unregistered ct ms = (model_name ` snd ` set ct) - fst ` set ms"

lemma size_get_args: "has_origin t \<Longrightarrow> size_list size (get_args t) < size t"
  by (cases t) simp_all

lemma model_class_of_in_table:
  "model_class_of ct t = Some cls \<Longrightarrow> model_name cls \<in> model_name ` snd ` set ct"
  by (cases t) (auto dest!: map_of_SomeD intro!: image_eqI)

lemma unregistered_update:
  assumes "model_name cls \<in> model_name ` snd ` set ct" and "model_name cls \<notin> fst ` set ms"
  shows "card (unregistered ct (AList.update (model_name cls) cls ms)) < card (unregistered ct ms)"
proof -
  have "unregistered ct (AList.update (model_name cls) cls ms)
      = unregistered ct ms - {model_name cls}"
    by (auto simp add: unregistered_def dom_update)
  moreover have "model_name cls \<in> unregistered ct ms"
    using assms by (simp add: unregistered_def)
  moreover have "finite (unregistered ct ms)"
    by (simp add: unregistered_def)
  ultimately show ?thesis
    by (metis card_Diff1_less)
qed

text \<open>
  \<open>CommandRegistry.collect_models_from_type\<close>, on the dictionary \<open>_models\<close>. The method calls
  itself inside two loops (over the arguments of a generic alias, over the fields of a
  model); the list of hints holds the calls still to be made, in the order the method
  makes them: the hint at the head is the current call, the arguments or field annotations
  it loops over are put in front of the calls that were pending. A model is added to
  \<open>_models\<close> before its fields are visited, which is what ends the recursion on a cycle.
\<close>

function collect_models ::
  "class_table \<Rightarrow> (string \<times> model_class) list \<Rightarrow> py_type list \<Rightarrow> (string \<times> model_class) list" where
  "collect_models ct ms [] = ms"
| "collect_models ct ms (type_hint # pending) =
     (if type_hint = TNone then collect_models ct ms pending
      else if has_origin type_hint then collect_models ct ms (get_args type_hint @ pending)
      else
        (case model_class_of ct type_hint of
           Some cls \<Rightarrow>
             (if model_name cls \<notin> fst ` set ms then
                collect_models ct (AList.update (model_name cls) cls ms)
                  (map (\<lambda>(field_name, field_info). annotation field_info) (model_fields cls) @ pending)
              else collect_models ct ms pending)
         | None \<Rightarrow> collect_models ct ms pending))"
  by pat_completeness auto
termination
proof (relation "inv_image (less_than <*lex*> less_than)
         (\<lambda>(ct, ms, pending). (card (unregistered ct ms), size_list size pending))",
       goal_cases)
  case 1
  show ?case by (intro wf_inv_image wf_lex_prod wf_less_than)
next
  case (3 ct ms type_hint pending)
  then show ?case using size_get_args [of type_hint] by simp
next
  case (5 ct ms type_hint pending cls)
  then have "card (unregistered ct (AList.update (model_name cls) cls ms))
      < card (unregistered ct ms)"
    using unregistered_update [of cls ct ms] model_class_of_in_table [of ct type_hint cls]
    by simp
  then show ?case by simp
qed simp_all

definition collect_models_from_type :: "class_table \<Rightarrow> command_registry \<Rightarrow> py_type \<Rightarrow> command_registry" where
  "collect_models_from_type ct reg type_hint =
     reg\<lparr>models := collect_models ct (models reg) [type_hint]\<rparr>"


lemma collect_models_distinct:
  "distinct (map fst ms) \<Longrightarrow> distinct (map fst (collect_models ct ms pending))"
  by (induction ct ms pending rule: collect_models.induct)
     (auto simp add: distinct_update split: option.splits)

lemma collect_models_keys_mono:
  "fst ` set ms \<subseteq> fst ` set (collect_models ct ms pending)"
proof (induction ct ms pending rule: collect_models.induct)
  case (1 ct ms)
  show ?case by simp
next
  case (2 ct ms type_hint pending)
  show ?case
  proof (cases "model_class_of ct type_hint")
    case None
    then show ?thesis using 2 by auto
  next
    case (Some cls)
    show ?thesis
    proof (cases "has_origin type_hint \<or> type_hint = TNone")
      case True
      then show ?thesis using 2 by auto
    next
      case plain: False
      show ?thesis
      proof (cases "model_name cls \<in> fst ` set ms")
        case True
        then show ?thesis using 2 Some plain by simp
      next
        case False
        have a: "fst ` set ms \<subseteq> fst ` set (AList.update (model_name cls) cls ms)"
          by (auto simp add: dom_update)
        have b: "fst ` set (AList.update (model_name cls) cls ms)
            \<subseteq> fst ` set (collect_models ct (AList.update (model_name cls) cls ms)
                (map (\<lambda>(field_name, field_info). annotation field_info) (model_fields cls) @ pending))"
          using 2 Some plain False by simp
        have "collect_models ct ms (type_hint # pending)
            = collect_models ct (AList.update (model_name cls) cls ms)
                (map (\<lambda>(field_name, field_info). annotation field_info) (model_fields cls) @ pending)"
          using Some plain False by simp
        then show ?thesis using a b by (simp only: order_trans)
      qed
    qed
  qed
qed

lemma collect_models_root:
  assumes "map_of ct c = Some cls"
  shows "model_name cls \<in> fst ` set (collect_models ct ms (TModel c # pending))"
proof (cases "model_name cls \<in> fst ` set ms")
  case True
  then show ?thesis
    using collect_models_keys_mono [of ms ct "TModel c # pending"] by blast
next
  case False
  have "model_name cls \<in> fst ` set (AList.update (model_name cls) cls ms)"
    by (simp add: dom_update)
  then have "model_name cls \<in> fst ` set (collect_models ct (AList.update (model_name cls) cls ms)
      (map (\<lambda>(field_name, field_info). annotation field_info) (model_fields cls) @ pending))"
    using collect_models_keys_mono by blast
  then show ?thesis using assms False by simp
qed

lemma distinct_count_list_one:
  "distinct xs \<Longrightarrow> x \<in> set xs \<Longrightarrow> count_list xs x = 1"
  by (induction xs) auto

text \<open>
  C9. \<open>collect_models\<close> is total (its termination proof above covers every class table,
  cyclic ones included, by the number of names not yet registered). Collecting from a
  model class, self-referential or not, leaves the keys of \<open>_models\<close> distinct and the
  name of the class among them exactly once.
\<close>

theorem collect_models_once:
  assumes "distinct (map fst ms)" and "map_of ct c = Some cls"
  shows "distinct (map fst (collect_models ct ms [TModel c])) \<and>
         count_list (map fst (collect_models ct ms [TModel c])) (model_name cls) = 1"
proof -
  have d: "distinct (map fst (collect_models ct ms [TModel c]))"
    using assms(1) by (rule collect_models_distinct)
  moreover have "model_name cls \<in> set (map fst (collect_models ct ms [TModel c]))"
    using collect_models_root [OF assms(2)] by simp
  ultimately have "count_list (map fst (collect_models ct ms [TModel c])) (model_name cls) = 1"
    by (rule distinct_count_list_one)
  then show ?thesis using d by simp
qed

definition node_class :: model_class where
  "node_class = example_model ''Node'' [(''value'', TInt), (''next'', TUnion [TModel 0, TNoneType])]"

definition author_class :: model_class where
  "author_class = example_model ''Author'' [(''books'', TList [TModel 2])]"

definition book_class :: model_class where
  "book_class = example_model ''Book'' [(''title'', TStr), (''author'', TModel 1)]"

definition example_classes :: class_table where
  "example_classes = [(0, node_class), (1, author_class), (2, book_class)]"

theorem collect_models_once_witness:
  "collect_models example_classes [] [TModel 0] = [(''Node'', node_class)] \<and>
   count_list (map fst (collect_models example_classes [] [TModel 0])) ''Node'' = 1 \<and>
   collect_models example_classes [] [TModel 1] = [(''Author'', author_class), (''Book'', book_class)]"
proof -
  have n: "model_name node_class = ''Node''"
    by (simp add: node_class_def example_model_def)
  have l: "map_of example_classes 0 = Some node_class"
    by (simp add: example_classes_def)
  have "collect_models example_classes [] [TModel 0] = [(''Node'', node_class)]"
    by (simp add: example_classes_def node_class_def example_model_def)
  moreover have "collect_models example_classes [] [TModel 1]
      = [(''Author'', author_class), (''Book'', book_class)]"
    by (simp add: example_classes_def author_class_def book_class_def example_model_def)
  ultimately show ?thesis
    using collect_models_once [of "[]" example_classes 0 node_class] l n by simp
qed

section \<open>The client generator (generator.py)\<close>

text \<open>
  Strings of the generated text. A character is a byte; the names and docstrings the
  generator handles are taken to be ASCII. \<open>split_on\<close> is \<open>str.split(sep)\<close> for a separator
  of one character, \<open>title\<close> is \<open>str.title()\<close> (a letter after a cased letter is put in lower
  case, any other letter in upper case), \<open>strip\<close> is \<open>str.strip()\<close>, \<open>truthy\<close> is the test
  \<open>if s:\<close> on an optional string, \<open>jsdoc\<close> the lines of a JSDoc block as both generating
  methods write them.
\<close>

definition nl :: string where
  "nl = [CHR 0x0A]"

definition dq :: string where
  "dq = [CHR 0x22]"

fun split_on :: "char \<Rightarrow> string \<Rightarrow> string list" where
  "split_on sep [] = [[]]"
| "split_on sep (c # cs) =
     (if c = sep then [] # split_on sep cs
      else (case split_on sep cs of
              [] \<Rightarrow> [[c]]
            | w # ws \<Rightarrow> (c # w) # ws))"

definition is_lower :: "char \<Rightarrow> bool" where
  "is_lower c = (CHR ''a'' \<le> c \<and> c \<le> CHR ''z'')"

definition is_upper :: "char \<Rightarrow> bool" where
  "is_upper c = (CHR ''A'' \<le> c \<and> c \<le> CHR ''Z'')"

definition to_upper :: "char \<Rightarrow> char" where
  "to_upper c = (if is_lower c then char_of (of_char c - (32 :: nat)) else c)"

definition to_lower :: "char \<Rightarrow> char" where
  "to_lower c = (if is_upper c then char_of (of_char c + (32 :: nat)) else c)"

fun title_from :: "bool \<Rightarrow> string \<Rightarrow> string" where
  "title_from previous_is_cased [] = []"
| "title_from previous_is_cased (c # cs) =
     (if is_lower c then (if previous_is_cased then c else to_upper c) # title_from True cs
      else if is_upper c then (if previous_is_cased then to_lower c else c) # title_from True cs
      else c # title_from False cs)"

definition title :: "string \<Rightarrow> string" where
  "title s = title_from False s"

definition is_space :: "char \<Rightarrow> bool" where
  "is_space c = (c = CHR '' '' \<or> (CHR 0x09 \<le> c \<and> c \<le> CHR 0x0D) \<or> (CHR 0x1C \<le> c \<and> c \<le> CHR 0x1F))"

definition strip :: "string \<Rightarrow> string" where
  "strip s = rev (dropWhile is_space (rev (dropWhile is_space s)))"

definition python_name_to_camel_case :: "string \<Rightarrow> string" where
  "python_name_to_camel_case n =
     (case split_on CHR ''_'' n of
        [] \<Rightarrow> []
      | first # rest \<Rightarrow> first @ concat (map title rest))"

definition truthy :: "string option \<Rightarrow> bool" where
  "truthy s = (case s of None \<Rightarrow> False | Some v \<Rightarrow> v \<noteq> [])"

definition jsdoc :: "string \<Rightarrow> string list" where
  "jsdoc doc = [''/**''] @ map (\<lambda>line. '' * '' @ strip line) (split_on CHR 0x0A (strip doc)) @ ['' */'']"

text \<open>
  \<open>TypeScriptGenerator._generate_model_interface\<close>: \<open>is_optional\<close> is the test of the same
  name, \<open>field_lines\<close> one pass of the loop over \<open>model.model_fields.items()\<close>.
\<close>

definition is_optional :: "field_info \<Rightarrow> bool" where
  "is_optional fi =
     (\<not> is_required fi \<or>
      ((case annotation fi of TUnion args \<Rightarrow> True | _ \<Rightarrow> False) \<and>
       TNoneType \<in> set (get_args (annotation fi))))"

definition field_lines ::
  "class_table \<Rightarrow> string \<times> field_info \<Rightarrow> string list \<times> string fset \<Rightarrow> string list \<times> string fset" where
  "field_lines ct field acc =
     (case field of (field_name, fi) \<Rightarrow>
      case acc of (lines, models_to_generate) \<Rightarrow>
      case type_to_ts ct (annotation fi) models_to_generate of (ts, models_to_generate') \<Rightarrow>
        (lines
           @ (if truthy (description fi) then [''    /** '' @ the (description fi) @ '' */''] else [])
           @ [''    '' @ python_name_to_camel_case field_name
                @ (if is_optional fi then ''?'' else []) @ '': '' @ ts @ '';''],
         models_to_generate'))"

definition generate_model_interface ::
  "class_table \<Rightarrow> model_class \<Rightarrow> string fset \<Rightarrow> string \<times> string fset" where
  "generate_model_interface ct model models_to_generate =
     (case fold (field_lines ct) (model_fields model)
             ((if truthy (model_doc model) then jsdoc (the (model_doc model)) else [])
                @ [''export interface '' @ model_name model @ '' {''],
              models_to_generate) of
        (lines, models_to_generate') \<Rightarrow> (join nl (lines @ [''}'']), models_to_generate'))"

text \<open>
  \<open>TypeScriptGenerator._generate_command_function\<close>, in the parts the method has:
  \<open>params_type\<close> (the loop over \<open>cmd.params.items()\<close> is \<open>param_fields\<close>), the return type
  (for a channel command, from the hints of \<open>cmd.func\<close>), the lines of the function.
\<close>

definition param_fields ::
  "class_table \<Rightarrow> (string \<times> py_type) list \<Rightarrow> string fset \<Rightarrow> string list \<times> string fset" where
  "param_fields ct ps models_to_generate =
     fold (\<lambda>(param_name, param_type) (fs, m).
             case type_to_ts ct param_type m of
               (ts, m') \<Rightarrow> (fs @ [python_name_to_camel_case param_name @ '': '' @ ts], m'))
          ps ([], models_to_generate)"

definition params_type ::
  "class_table \<Rightarrow> command_info \<Rightarrow> string fset \<Rightarrow> string \<times> string fset" where
  "params_type ct cmd models_to_generate =
     (if params cmd \<noteq> [] then
        (case param_fields ct (params cmd) models_to_generate of
           (fs, m') \<Rightarrow> (''{ '' @ join ''; '' fs @ '' }'', m'))
      else (''void'', models_to_generate))"

definition command_return_type ::
  "class_table \<Rightarrow> command_info \<Rightarrow> string fset \<Rightarrow> string \<times> string fset" where
  "command_return_type ct cmd models_to_generate =
     (if has_channel cmd then
        (case map_of (fn_hints (func cmd)) ''channel'' of
           None \<Rightarrow> (''unknown'', models_to_generate)
         | Some channel_hint \<Rightarrow>
             (if channel_hint = TNone then (''unknown'', models_to_generate)
              else (case get_args channel_hint of
                      [] \<Rightarrow> (''unknown'', models_to_generate)
                    | a # _ \<Rightarrow> type_to_ts ct a models_to_generate)))
      else
        (case type_to_ts ct (return_type cmd) models_to_generate of
           (rt, m') \<Rightarrow> (if rt = ''void'' \<or> rt = ''null'' then ''void'' else rt, m')))"

definition function_lines :: "command_info \<Rightarrow> string \<Rightarrow> string \<Rightarrow> string list" where
  "function_lines cmd ptype rtype =
     (if has_channel cmd then
        (if params cmd \<noteq> [] then
           [''export function '' @ python_name_to_camel_case (name cmd) @ ''(args: '' @ ptype @ ''): ''
              @ ''BridgeChannel<'' @ rtype @ ''> {'',
            ''    return createChannel('' @ dq @ name cmd @ dq @ '', args);'']
         else
           [''export function '' @ python_name_to_camel_case (name cmd) @ ''(): BridgeChannel<'' @ rtype @ ''> {'',
            ''    return createChannel('' @ dq @ name cmd @ dq @ '', {});''])
        @ [''}'']
      else
        (if params cmd \<noteq> [] then
           [''export async function '' @ python_name_to_camel_case (name cmd) @ ''(args: '' @ ptype @ ''): ''
              @ ''Promise<'' @ rtype @ ''> {'',
            ''    return request('' @ dq @ name cmd @ dq @ '', args);'']
         else
           [''export async function '' @ python_name_to_camel_case (name cmd) @ ''(): Promise<'' @ rtype @ ''> {'',
            ''    return request('' @ dq @ name cmd @ dq @ '', {});''])
        @ [''}''])"

definition generate_command_function ::
  "class_table \<Rightarrow> command_info \<Rightarrow> string fset \<Rightarrow> string \<times> string fset" where
  "generate_command_function ct cmd models_to_generate =
     (case params_type ct cmd models_to_generate of (ptype, m') \<Rightarrow>
      case command_return_type ct cmd m' of (rtype, m'') \<Rightarrow>
        (join nl ((if truthy (docstring cmd) then jsdoc (the (docstring cmd)) else [])
                   @ function_lines cmd ptype rtype),
         m''))"

text \<open>
  The body of the \<open>for\<close> loop inside the \<open>while\<close> loop of \<open>generate\<close>: the name is looked
  up in the model registry, an interface is generated if the lookup gives a model, and the
  name is marked as generated in both cases.
\<close>

definition interface_step ::
  "class_table \<Rightarrow> (string \<times> model_class) list \<Rightarrow> string
     \<Rightarrow> string fset \<times> string fset \<times> string list \<Rightarrow> string fset \<times> string fset \<times> string list" where
  "interface_step ct ms n st =
     (case st of (models_to_generate, generated_models, model_interfaces) \<Rightarrow>
      case map_of ms n of
        Some model \<Rightarrow>
          (case generate_model_interface ct model models_to_generate of
             (interface_code, models_to_generate') \<Rightarrow>
               (models_to_generate', finsert n generated_models,
                model_interfaces @ [interface_code]))
      | None \<Rightarrow> (models_to_generate, finsert n generated_models, model_interfaces))"

text \<open>
  What \<open>_generate_model_interface\<close> returns, without the set it threads: the lines of the
  fields, the names the fields add, the text of the interface.
\<close>

definition field_text :: "class_table \<Rightarrow> string \<times> field_info \<Rightarrow> string list" where
  "field_text ct field = fst (field_lines ct field ([], {||}))"

primrec fields_models :: "class_table \<Rightarrow> (string \<times> field_info) list \<Rightarrow> string fset" where
  "fields_models ct [] = {||}"
| "fields_models ct (field # rest) = type_models ct (annotation (snd field)) |\<union>| fields_models ct rest"

definition interface_text :: "class_table \<Rightarrow> model_class \<Rightarrow> string" where
  "interface_text ct model = fst (generate_model_interface ct model {||})"

primrec registry_models :: "class_table \<Rightarrow> (string \<times> model_class) list \<Rightarrow> string fset" where
  "registry_models ct [] = {||}"
| "registry_models ct (entry # rest) = fields_models ct (model_fields (snd entry)) |\<union>| registry_models ct rest"

lemma field_lines_acc:
  "field_lines ct field (lines, m) = (lines @ field_text ct field, m |\<union>| type_models ct (annotation (snd field)))"
  by (cases field) (simp add: field_lines_def field_text_def type_to_ts_acc [of ct _ m] type_to_ts_acc [of ct _ "{||}"])

lemma fold_field_lines:
  "fold (field_lines ct) fs (lines, m)
     = (lines @ concat (map (field_text ct) fs), m |\<union>| fields_models ct fs)"
  by (induction fs arbitrary: lines m) (simp_all add: field_lines_acc funion_assoc)

lemma generate_model_interface_acc:
  "generate_model_interface ct model m
     = (interface_text ct model, m |\<union>| fields_models ct (model_fields model))"
  by (simp add: generate_model_interface_def interface_text_def fold_field_lines)

lemma registry_models_lookup:
  "map_of ms n = Some model \<Longrightarrow> fields_models ct (model_fields model) |\<subseteq>| registry_models ct ms"
proof (induction ms)
  case Nil
  then show ?case by simp
next
  case (Cons entry ms)
  show ?case
  proof (cases "fst entry = n")
    case True
    then have "snd entry = model" using Cons.prems by (cases entry) simp
    then show ?thesis by auto
  next
    case False
    then have "map_of ms n = Some model" using Cons.prems by (cases entry) simp
    then show ?thesis using Cons.IH by auto
  qed
qed

lemma interface_step_result:
  "interface_step ct ms n (tg, gen, ifs)
     = (case map_of ms n of
          Some model \<Rightarrow> (tg |\<union>| fields_models ct (model_fields model), finsert n gen,
                          ifs @ [interface_text ct model])
        | None \<Rightarrow> (tg, finsert n gen, ifs))"
  by (simp add: interface_step_def generate_model_interface_acc split: option.split)

lemma fold_interface_step:
  "fold (interface_step ct ms) names (tg, gen, ifs) = (tg', gen', ifs') \<Longrightarrow>
     gen' = gen |\<union>| fset_of_list names \<and> tg |\<subseteq>| tg' \<and> tg' |\<subseteq>| tg |\<union>| registry_models ct ms \<and>
     ifs' = ifs @ map (\<lambda>n. interface_text ct (the (map_of ms n))) (filter (\<lambda>n. map_of ms n \<noteq> None) names)"
proof (induction names arbitrary: tg gen ifs)
  case Nil
  then show ?case by auto
next
  case (Cons n names)
  show ?case
  proof (cases "map_of ms n")
    case None
    then have "fold (interface_step ct ms) names (tg, finsert n gen, ifs) = (tg', gen', ifs')"
      using Cons.prems by (simp add: interface_step_result)
    from Cons.IH [OF this] show ?thesis using None by auto
  next
    case (Some model)
    then have "fold (interface_step ct ms) names
        (tg |\<union>| fields_models ct (model_fields model), finsert n gen, ifs @ [interface_text ct model])
        = (tg', gen', ifs')"
      using Cons.prems by (simp add: interface_step_result)
    from Cons.IH [OF this] registry_models_lookup [OF Some, of ct]
    show ?thesis using Some by auto
  qed
qed

text \<open>
  The \<open>while\<close> loop of \<open>generate\<close>: as long as a name to generate has not been generated,
  the names of the current batch are processed in sorted order. The result is
  \<open>model_interfaces\<close>, \<open>generated_models\<close> and \<open>models_to_generate\<close> at the end.
\<close>

function generate_interfaces ::
  "class_table \<Rightarrow> (string \<times> model_class) list \<Rightarrow> string fset \<Rightarrow> string fset \<Rightarrow> string list
     \<Rightarrow> string list \<times> string fset \<times> string fset" where
  "generate_interfaces ct ms models_to_generate generated_models model_interfaces =
     (if models_to_generate |-| generated_models = {||}
      then (model_interfaces, generated_models, models_to_generate)
      else
        (case fold (interface_step ct ms)
                (sorted_list_of_fset (models_to_generate |-| generated_models))
                (models_to_generate, generated_models, model_interfaces) of
           (models_to_generate', generated_models', model_interfaces') \<Rightarrow>
             generate_interfaces ct ms models_to_generate' generated_models' model_interfaces'))"
  by pat_completeness auto
termination
proof (relation "measure (\<lambda>(ct, ms, tg, gen, ifs). fcard ((tg |\<union>| registry_models ct ms) |-| gen))",
       goal_cases)
  case 1
  show ?case by simp
next
  case (2 ct ms tg gen ifs tg' rest gen' ifs')
  then have f: "fold (interface_step ct ms) (sorted_list_of_fset (tg |-| gen)) (tg, gen, ifs)
      = (tg', gen', ifs')"
    by simp
  have g: "gen' = gen |\<union>| (tg |-| gen)" and t: "tg' |\<subseteq>| tg |\<union>| registry_models ct ms"
    using fold_interface_step [OF f] by simp_all
  obtain n where n: "n |\<in>| tg |-| gen"
    using 2(1) by auto
  have "(tg' |\<union>| registry_models ct ms) |-| gen' |\<subseteq>| ((tg |\<union>| registry_models ct ms) |-| gen) |-| {|n|}"
    using g t n by auto
  moreover have "n |\<in>| (tg |\<union>| registry_models ct ms) |-| gen"
    using n by auto
  ultimately have "fcard ((tg' |\<union>| registry_models ct ms) |-| gen')
      < fcard ((tg |\<union>| registry_models ct ms) |-| gen)"
    by (metis fcard_fminus1_less fcard_mono le_less_trans)
  then show ?case by simp
qed

text \<open>
  \<open>TypeScriptGenerator.generate\<close>. The result is the text written to \<open>output_path\<close>; the
  second argument of the header is \<open>datetime.now().isoformat()\<close> as read by the call. (The
  file \<open>_internal.ts\<close> written next to it is a constant text and is left out.)
  \<open>sorted_commands\<close> is \<open>sorted(commands.values(), key=lambda c: c.name)\<close>,
  \<open>command_functions\<close> the loop over it.
\<close>

definition generate_header :: "string \<Rightarrow> string" where
  "generate_header now =
     ''/* Auto-generated by PyBridge - DO NOT EDIT */'' @ nl
     @ ''/* Generated: '' @ now @ '' */'' @ nl
     @ nl
     @ ''import { initBridge, request, createChannel, BridgeRequestError } from '' @ dq @ ''./_internal'' @ dq @ '';'' @ nl
     @ ''import type { BridgeChannel, BridgeError } from '' @ dq @ ''./_internal'' @ dq @ '';'' @ nl
     @ nl
     @ ''// Re-export initialization and error types'' @ nl
     @ ''export { initBridge, BridgeRequestError };'' @ nl
     @ ''export type { BridgeChannel, BridgeError };'' @ nl"

definition sorted_commands :: "command_registry \<Rightarrow> command_info list" where
  "sorted_commands reg = sort_key name (map snd (commands reg))"

definition command_functions :: "class_table \<Rightarrow> command_info list \<Rightarrow> string list \<times> string fset" where
  "command_functions ct cmds =
     fold (\<lambda>cmd (fns, m).
             case generate_command_function ct cmd m of (fn_code, m') \<Rightarrow> (fns @ [fn_code], m'))
          cmds ([], {||})"

definition generate :: "class_table \<Rightarrow> command_registry \<Rightarrow> string \<Rightarrow> string" where
  "generate ct reg now =
     (case command_functions ct (sorted_commands reg) of
        (fns, models_to_generate) \<Rightarrow>
      case generate_interfaces ct (models reg)
             (fold finsert (map fst (models reg)) models_to_generate) {||} [] of
        (model_interfaces, generated_models, models_to_generate') \<Rightarrow>
          join nl
            ([generate_header now]
             @ (if model_interfaces \<noteq> []
                then [''// ============ Interfaces ============'' @ nl,
                      join (nl @ nl) model_interfaces, []]
                else [])
             @ (if fns \<noteq> []
                then [nl @ ''// ============ Commands ============'' @ nl, join (nl @ nl) fns]
                else [])))"

section \<open>The directory of commands (bridge.py)\<close>

record command_entry =
  entry_name :: string
  entry_module :: string
  entry_has_channel :: bool
  entry_params :: "string list"

text \<open>
  \<open>list_commands\<close>: one entry per value of the dictionary of commands, in the order of
  \<open>commands.values()\<close>.
\<close>

definition list_commands :: "command_registry \<Rightarrow> command_entry list" where
  "list_commands reg =
     map (\<lambda>cmd. \<lparr>entry_name = name cmd, entry_module = module cmd,
                  entry_has_channel = has_channel cmd, entry_params = map fst (params cmd)\<rparr>)
         (map snd (commands reg))"

section \<open>The decorator (registry.py)\<close>

text \<open>
  \<open>command\<close>, applied to a function \<open>fn\<close> with the optional keyword \<open>name\<close>.
  \<open>param_step\<close> is one pass of the loop over \<open>sig.parameters.items()\<close>, on the registry,
  the dictionary \<open>params\<close> and the flag \<open>has_channel\<close>; \<open>build_command_info\<close> is the
  decorator up to the creation of the \<open>CommandInfo\<close>; \<open>command\<close> registers it.
\<close>

definition command_name :: "py_function \<Rightarrow> string option \<Rightarrow> string" where
  "command_name fn nm = (if truthy nm then the nm else fn_name fn)"

definition param_step ::
  "class_table \<Rightarrow> py_function \<Rightarrow> string
     \<Rightarrow> command_registry \<times> (string \<times> py_type) list \<times> bool
     \<Rightarrow> command_registry \<times> (string \<times> py_type) list \<times> bool" where
  "param_step ct fn param_name st =
     (case st of (reg, ps, has_chan) \<Rightarrow>
      if param_name = ''channel'' then
        (case map_of (fn_hints fn) ''channel'' of
           None \<Rightarrow> (reg, ps, True)
         | Some channel_type \<Rightarrow>
             (if channel_type = TNone then (reg, ps, True)
              else (case get_args channel_type of
                      [] \<Rightarrow> (reg, ps, True)
                    | a # _ \<Rightarrow> (collect_models_from_type ct reg a, ps, True))))
      else
        (let param_type = (case map_of (fn_hints fn) param_name of Some t \<Rightarrow> t | None \<Rightarrow> TAny)
         in (collect_models_from_type ct reg param_type,
             AList.update param_name param_type ps, has_chan)))"

definition build_command_info ::
  "class_table \<Rightarrow> command_registry \<Rightarrow> py_function \<Rightarrow> string option
     \<Rightarrow> command_info \<times> command_registry" where
  "build_command_info ct reg fn nm =
     (case fold (param_step ct fn) (fn_params fn) (reg, [], False) of
        (reg', ps, has_chan) \<Rightarrow>
          (let rt = (case map_of (fn_hints fn) ''return'' of Some t \<Rightarrow> t | None \<Rightarrow> TNone)
           in (\<lparr>name = command_name fn nm, func = fn, params = ps, return_type = rt,
                is_async = fn_is_coroutine fn, docstring = fn_doc fn, module = fn_module fn,
                has_channel = has_chan\<rparr>,
               collect_models_from_type ct reg' rt)))"

definition command ::
  "class_table \<Rightarrow> command_registry \<Rightarrow> py_function \<Rightarrow> string option
     \<Rightarrow> (bridge_error + unit) \<times> command_registry" where
  "command ct reg fn nm =
     (case build_command_info ct reg fn nm of (cmd_info, reg') \<Rightarrow> register reg' cmd_info)"

section \<open>An example registry\<close>

text \<open>
  Two commands over the classes \<open>Author\<close> and \<open>Book\<close>, decorated in the order
  \<open>watch_books\<close>, \<open>get_author\<close>; the first is a streaming command.
\<close>

definition get_author_fn :: py_function where
  "get_author_fn = \<lparr>fn_name = ''get_author'', fn_params = [''author_id''],
     fn_hints = [(''author_id'', TInt), (''return'', TModel 1)], fn_doc = Some ''Get an author.'',
     fn_module = ''users'', fn_is_coroutine = True,
     fn_call = (\<lambda>kwargs. Ran [] (Returned VNone))\<rparr>"

definition watch_fn :: py_function where
  "watch_fn = \<lparr>fn_name = ''watch_books'', fn_params = [''since'', ''channel''],
     fn_hints = [(''since'', TInt), (''channel'', TGeneric [TModel 2]), (''return'', TNoneType)], fn_doc = None,
     fn_module = ''tasks'', fn_is_coroutine = True,
     fn_call = (\<lambda>kwargs. Ran [] (Returned VNone))\<rparr>"

definition example_registry :: command_registry where
  "example_registry =
     snd (command example_classes (snd (command example_classes empty_registry watch_fn None))
            get_author_fn None)"

section \<open>Enumerating the commands\<close>

text \<open>Registering a list of commands one after the other, stopping at the first error.\<close>

fun register_all :: "command_registry \<Rightarrow> command_info list \<Rightarrow> bridge_error + command_registry" where
  "register_all reg [] = Inr reg"
| "register_all reg (cmd # cmds) =
     (case register reg cmd of
        (Inl e, reg') \<Rightarrow> Inl e
      | (Inr u, reg') \<Rightarrow> register_all reg' cmds)"

lemma update_new_key: "map_of al k = None \<Longrightarrow> AList.update k v al = al @ [(k, v)]"
  by (induction al) (auto split: if_splits)

lemma register_all_order:
  "register_all reg cmds = Inr reg' \<Longrightarrow> map snd (commands reg') = map snd (commands reg) @ cmds"
proof (induction cmds arbitrary: reg)
  case Nil
  then show ?case by simp
next
  case (Cons cmd cmds)
  show ?case
  proof (cases "map_of (commands reg) (name cmd)")
    case (Some existing)
    then show ?thesis using Cons.prems by (simp add: register_def)
  next
    case None
    then have r: "register reg cmd = (Inr (), reg\<lparr>commands := commands reg @ [(name cmd, cmd)]\<rparr>)"
      by (simp add: register_def update_new_key)
    then have "register_all (reg\<lparr>commands := commands reg @ [(name cmd, cmd)]\<rparr>) cmds = Inr reg'"
      using Cons.prems by simp
    from Cons.IH [OF this] show ?thesis by simp
  qed
qed

definition registry_b_a :: command_registry where
  "registry_b_a =
     snd (register (snd (register empty_registry (example_cmd ''b'' ''tasks''))) (example_cmd ''a'' ''users''))"

text \<open>
  C3, as stated, fails for the directory: after registering \<open>b\<close> and then \<open>a\<close>,
  \<open>list_commands\<close> gives \<open>b\<close> before \<open>a\<close>.
\<close>

theorem list_commands_not_sorted:
  "map entry_name (list_commands registry_b_a) = [''b'', ''a''] \<and>
   \<not> sorted (map entry_name (list_commands registry_b_a))"
  by (simp add: registry_b_a_def list_commands_def register_def empty_registry_def example_cmd_def)

text \<open>
  C3, amended. The enumeration the generator uses holds the registered commands sorted by
  name. The directory lists the commands in the order of their registration.
\<close>

theorem command_enumerations:
  "sorted (map name (sorted_commands reg)) \<and>
   mset (sorted_commands reg) = mset (map snd (commands reg)) \<and>
   (register_all empty_registry cmds = Inr reg \<longrightarrow>
      map entry_name (list_commands reg) = map name cmds)"
proof (intro conjI impI)
  show "sorted (map name (sorted_commands reg))"
    by (simp add: sorted_commands_def)
  show "mset (sorted_commands reg) = mset (map snd (commands reg))"
    by (simp add: sorted_commands_def)
next
  assume "register_all empty_registry cmds = Inr reg"
  then have "map snd (commands reg) = cmds"
    using register_all_order [of empty_registry cmds reg] by (simp add: empty_registry_def)
  then show "map entry_name (list_commands reg) = map name cmds"
    by (simp add: list_commands_def comp_def)
qed

theorem command_enumerations_witness:
  "register_all empty_registry [example_cmd ''b'' ''tasks'', example_cmd ''a'' ''users''] = Inr registry_b_a \<and>
   map entry_name (list_commands registry_b_a) = [''b'', ''a''] \<and>
   map name (sorted_commands registry_b_a) = [''a'', ''b'']"
proof -
  have r: "register_all empty_registry [example_cmd ''b'' ''tasks'', example_cmd ''a'' ''users'']
      = Inr registry_b_a"
    by (simp add: registry_b_a_def register_def empty_registry_def example_cmd_def)
  have s: "map name (sorted_commands registry_b_a) = [''a'', ''b'']"
    by (simp add: sorted_commands_def registry_b_a_def register_def empty_registry_def example_cmd_def)
  show ?thesis
    using command_enumerations
      [of registry_b_a "[example_cmd ''b'' ''tasks'', example_cmd ''a'' ''users'']"] r s
    by (simp add: example_cmd_def)
qed

section \<open>The channel parameter\<close>

lemma param_step_channel:
  "\<exists>reg'. param_step ct fn ''channel'' (reg, ps, hc) = (reg', ps, True)"
  by (simp add: param_step_def split: option.split list.split)

lemma param_step_other:
  "p \<noteq> ''channel'' \<Longrightarrow>
     \<exists>reg' t. param_step ct fn p (reg, ps, hc) = (reg', AList.update p t ps, hc)"
  by (auto simp add: param_step_def Let_def)

lemma fold_param_step:
  "fold (param_step ct fn) names (reg, ps, hc) = (reg', ps', hc') \<Longrightarrow>
     fst ` set ps' = fst ` set ps \<union> (set names - {''channel''}) \<and>
     hc' = (hc \<or> ''channel'' \<in> set names)"
proof (induction names arbitrary: reg ps hc)
  case Nil
  then show ?case by simp
next
  case (Cons p names)
  show ?case
  proof (cases "p = ''channel''")
    case True
    obtain r where "param_step ct fn ''channel'' (reg, ps, hc) = (r, ps, True)"
      using param_step_channel by blast
    then have "fold (param_step ct fn) names (r, ps, True) = (reg', ps', hc')"
      using Cons.prems True by simp
    from Cons.IH [OF this] show ?thesis using True by auto
  next
    case False
    obtain r t where "param_step ct fn p (reg, ps, hc) = (r, AList.update p t ps, hc)"
      using param_step_other [OF False] by blast
    then have "fold (param_step ct fn) names (r, AList.update p t ps, hc) = (reg', ps', hc')"
      using Cons.prems by simp
    from Cons.IH [OF this] show ?thesis using False by (auto simp add: dom_update)
  qed
qed

lemma command_return_type_channel:
  "has_channel cmd \<Longrightarrow>
     fst (command_return_type ct cmd m)
       = (case map_of (fn_hints (func cmd)) ''channel'' of
            None \<Rightarrow> ''unknown''
          | Some channel_hint \<Rightarrow>
              (case get_args channel_hint of [] \<Rightarrow> ''unknown'' | a # rest \<Rightarrow> ts_type ct a))"
  by (simp add: command_return_type_def type_to_ts_acc split: option.split list.split)

text \<open>
  C10. In the \<open>CommandInfo\<close> the decorator builds, the parameters are the parameters of
  the function other than \<open>channel\<close>, and \<open>has_channel\<close> says whether the function has a
  parameter of that name. For such a command the generated function is, after its JSDoc
  lines, exactly the three lines below: the type in \<open>BridgeChannel<...>\<close> is the mapped
  first argument of the hint of \<open>channel\<close>, \<open>unknown\<close> when the hint is missing or has
  no argument, and the return type of the command has no part in the text.
\<close>

theorem channel_parameter:
  assumes "build_command_info ct reg fn nm = (cmd, reg')"
  shows "''channel'' \<notin> fst ` set (params cmd) \<and>
         fst ` set (params cmd) = set (fn_params fn) - {''channel''} \<and>
         has_channel cmd = (''channel'' \<in> set (fn_params fn)) \<and>
         (has_channel cmd \<longrightarrow>
            fst (command_return_type ct cmd m)
              = (case map_of (fn_hints fn) ''channel'' of
                   None \<Rightarrow> ''unknown''
                 | Some channel_hint \<Rightarrow>
                     (case get_args channel_hint of [] \<Rightarrow> ''unknown'' | a # rest \<Rightarrow> ts_type ct a)) \<and>
            command_return_type ct (cmd\<lparr>return_type := other\<rparr>) m = command_return_type ct cmd m \<and>
            fst (generate_command_function ct (cmd\<lparr>return_type := other\<rparr>) m)
              = fst (generate_command_function ct cmd m) \<and>
            fst (generate_command_function ct cmd m)
              = join nl
                  ((if truthy (docstring cmd) then jsdoc (the (docstring cmd)) else [])
                   @ [''export function '' @ python_name_to_camel_case (name cmd)
                        @ (if params cmd \<noteq> [] then ''(args: '' @ fst (params_type ct cmd m) @ '')'' else ''()'')
                        @ '': BridgeChannel<''
                        @ (case map_of (fn_hints fn) ''channel'' of
                             None \<Rightarrow> ''unknown''
                           | Some channel_hint \<Rightarrow>
                               (case get_args channel_hint of
                                  [] \<Rightarrow> ''unknown''
                                | a # rest \<Rightarrow> ts_type ct a))
                        @ ''> {'',
                      ''    return createChannel('' @ dq @ name cmd @ dq
                        @ (if params cmd \<noteq> [] then '', args);'' else '', {});''),
                      ''}'']))"
proof -
  obtain r ps hc where f: "fold (param_step ct fn) (fn_params fn) (reg, [], False) = (r, ps, hc)"
    by (metis prod_cases3)
  have c: "params cmd = ps" "has_channel cmd = hc" "func cmd = fn"
    using assms f by (auto simp add: build_command_info_def Let_def)
  have k: "fst ` set ps = set (fn_params fn) - {''channel''}" and h: "hc = (''channel'' \<in> set (fn_params fn))"
    using fold_param_step [OF f] by simp_all
  have ret: "has_channel cmd \<Longrightarrow>
      command_return_type ct (cmd\<lparr>return_type := other\<rparr>) m' = command_return_type ct cmd m'" for m'
    by (simp add: command_return_type_def)
  have rt_indep: "fst (command_return_type ct cmd m') = fst (command_return_type ct cmd m)" for m'
    by (simp add: command_return_type_def type_to_ts_acc split: option.split list.split)
  have pt: "params_type ct (cmd\<lparr>return_type := other\<rparr>) m = params_type ct cmd m"
    by (simp add: params_type_def)
  have fl: "function_lines (cmd\<lparr>return_type := other\<rparr>) p t = function_lines cmd p t" for p t
    by (simp add: function_lines_def)
  have gen: "fst (generate_command_function ct cmd m)
      = join nl ((if truthy (docstring cmd) then jsdoc (the (docstring cmd)) else [])
          @ function_lines cmd (fst (params_type ct cmd m)) (fst (command_return_type ct cmd m)))"
  proof -
    obtain pt m1 where p: "params_type ct cmd m = (pt, m1)"
      by fastforce
    obtain rt m2 where r: "command_return_type ct cmd m1 = (rt, m2)"
      by fastforce
    have "rt = fst (command_return_type ct cmd m)"
      using rt_indep [of m1] r by simp
    then show ?thesis
      by (simp add: generate_command_function_def p r)
  qed
  have gen_other: "has_channel cmd \<Longrightarrow>
      generate_command_function ct (cmd\<lparr>return_type := other\<rparr>) m = generate_command_function ct cmd m"
    by (simp add: generate_command_function_def pt fl ret split: prod.split)
  have shape: "has_channel cmd \<Longrightarrow>
      function_lines cmd p t
        = [''export function '' @ python_name_to_camel_case (name cmd)
             @ (if params cmd \<noteq> [] then ''(args: '' @ p @ '')'' else ''()'')
             @ '': BridgeChannel<'' @ t @ ''> {'',
           ''    return createChannel('' @ dq @ name cmd @ dq
             @ (if params cmd \<noteq> [] then '', args);'' else '', {});''),
           ''}'']" for p t
    by (simp add: function_lines_def)
  have payload: "has_channel cmd \<Longrightarrow>
      fst (command_return_type ct cmd m)
        = (case map_of (fn_hints fn) ''channel'' of
             None \<Rightarrow> ''unknown''
           | Some channel_hint \<Rightarrow>
               (case get_args channel_hint of [] \<Rightarrow> ''unknown'' | a # rest \<Rightarrow> ts_type ct a))"
    using command_return_type_channel [of cmd ct m] c(3) by simp
  have stub: "has_channel cmd \<Longrightarrow>
      fst (generate_command_function ct cmd m)
        = join nl
            ((if truthy (docstring cmd) then jsdoc (the (docstring cmd)) else [])
             @ [''export function '' @ python_name_to_camel_case (name cmd)
                  @ (if params cmd \<noteq> [] then ''(args: '' @ fst (params_type ct cmd m) @ '')'' else ''()'')
                  @ '': BridgeChannel<''
                  @ (case map_of (fn_hints fn) ''channel'' of
                       None \<Rightarrow> ''unknown''
                     | Some channel_hint \<Rightarrow>
                         (case get_args channel_hint of
                            [] \<Rightarrow> ''unknown''
                          | a # rest \<Rightarrow> ts_type ct a))
                  @ ''> {'',
                ''    return createChannel('' @ dq @ name cmd @ dq
                  @ (if params cmd \<noteq> [] then '', args);'' else '', {});''),
                ''}''])"
    by (simp only: gen shape payload)
  show ?thesis
    using c(1,2) k h ret [of m] gen_other payload stub by (intro conjI impI) auto
qed

theorem channel_parameter_witness:
  "map fst (params (fst (build_command_info example_classes empty_registry watch_fn None))) = [''since''] \<and>
   has_channel (fst (build_command_info example_classes empty_registry watch_fn None)) \<and>
   return_type (fst (build_command_info example_classes empty_registry watch_fn None)) = TNoneType \<and>
   fst (generate_command_function example_classes
          (fst (build_command_info example_classes empty_registry watch_fn None)) {||})
     = ''export function watchBooks(args: { since: number }): BridgeChannel<Book> {'' @ nl
       @ ''    return createChannel('' @ dq @ ''watch_books'' @ dq @ '', args);'' @ nl @ ''}''"
proof -
  have b: "build_command_info example_classes empty_registry watch_fn None
      = (fst (build_command_info example_classes empty_registry watch_fn None),
         snd (build_command_info example_classes empty_registry watch_fn None))"
    by simp
  have p: "params (fst (build_command_info example_classes empty_registry watch_fn None)) = [(''since'', TInt)]"
    by (simp add: build_command_info_def param_step_def watch_fn_def Let_def)
  have n: "name (fst (build_command_info example_classes empty_registry watch_fn None)) = ''watch_books''"
      "docstring (fst (build_command_info example_classes empty_registry watch_fn None)) = None"
      "return_type (fst (build_command_info example_classes empty_registry watch_fn None)) = TNoneType"
    by (simp_all add: build_command_info_def watch_fn_def Let_def command_name_def truthy_def
          split: prod.split)
  have t: "ts_type example_classes (TModel 2) = ''Book''"
    by (simp add: ts_type_def example_classes_def book_class_def example_model_def)
  have c: "python_name_to_camel_case ''watch_books'' = ''watchBooks''"
    by code_simp
  have pt: "fst (params_type example_classes
        (fst (build_command_info example_classes empty_registry watch_fn None)) {||})
      = ''{ since: number }''"
    by (simp add: params_type_def param_fields_def p python_name_to_camel_case_def)
  show ?thesis
    using channel_parameter [OF b, of "{||}" TInt] p n t c pt
    by (simp add: watch_fn_def truthy_def nl_def)
qed

section \<open>Names the generator cannot resolve\<close>

lemma sorted_list_of_fset_distinct: "distinct (sorted_list_of_fset S)"
  by (simp add: sorted_list_of_fset.rep_eq)

lemma sorted_list_of_fset_sorted: "sorted (sorted_list_of_fset S)"
  by (simp add: sorted_list_of_fset.rep_eq)

lemma generate_interfaces_unfold:
  "generate_interfaces ct ms tg gen ifs =
     (if tg |-| gen = {||} then (ifs, gen, tg)
      else generate_interfaces ct ms
             (fst (fold (interface_step ct ms) (sorted_list_of_fset (tg |-| gen)) (tg, gen, ifs)))
             (fst (snd (fold (interface_step ct ms) (sorted_list_of_fset (tg |-| gen)) (tg, gen, ifs))))
             (snd (snd (fold (interface_step ct ms) (sorted_list_of_fset (tg |-| gen)) (tg, gen, ifs)))))"
  by (subst generate_interfaces.simps) (simp add: case_prod_beta)

lemma generate_interfaces_invariant:
  "gen |\<subseteq>| tg \<Longrightarrow> generate_interfaces ct ms tg gen ifs = (ifs', gen', tg') \<Longrightarrow>
     gen' = tg' \<and> tg |\<subseteq>| tg' \<and>
     (\<exists>names. distinct names \<and>
        set names = {n. n |\<in>| gen' |-| gen \<and> map_of ms n \<noteq> None} \<and>
        ifs' = ifs @ map (\<lambda>n. interface_text ct (the (map_of ms n))) names)"
proof (induction ct ms tg gen ifs rule: generate_interfaces.induct)
  case (1 ct ms tg gen ifs)
  show ?case
  proof (cases "tg |-| gen = {||}")
    case True
    then have "gen = tg" using "1.prems"(1) by auto
    moreover have "ifs' = ifs" "gen' = gen" "tg' = tg"
      using "1.prems"(2) True by (simp_all add: generate_interfaces_unfold [of ct ms tg gen ifs])
    ultimately show ?thesis by auto
  next
    case False
    define batch where "batch = sorted_list_of_fset (tg |-| gen)"
    obtain tg1 gen1 ifs1 where f: "fold (interface_step ct ms) batch (tg, gen, ifs) = (tg1, gen1, ifs1)"
      by (metis prod_cases3)
    have b: "distinct batch" "set batch = fset (tg |-| gen)"
      by (simp_all add: batch_def sorted_list_of_fset_distinct)
    have g1: "gen1 = gen |\<union>| fset_of_list batch" and t1: "tg |\<subseteq>| tg1"
      and i1: "ifs1 = ifs @ map (\<lambda>n. interface_text ct (the (map_of ms n)))
                            (filter (\<lambda>n. map_of ms n \<noteq> None) batch)"
      using fold_interface_step [OF f] by simp_all
    have g1': "fset gen1 = fset gen \<union> set batch"
      using g1 by (simp add: fset_of_list.rep_eq)
    have sub1: "gen1 |\<subseteq>| tg1"
      using g1' b(2) t1 "1.prems"(1) by (auto simp add: less_eq_fset.rep_eq)
    have rec: "generate_interfaces ct ms tg1 gen1 ifs1 = (ifs', gen', tg')"
      using "1.prems"(2) False f
      by (simp add: generate_interfaces_unfold [of ct ms tg gen ifs] batch_def)
    have "gen' = tg' \<and> tg1 |\<subseteq>| tg' \<and>
        (\<exists>names. distinct names \<and>
           set names = {n. n |\<in>| gen' |-| gen1 \<and> map_of ms n \<noteq> None} \<and>
           ifs' = ifs1 @ map (\<lambda>n. interface_text ct (the (map_of ms n))) names)"
    proof (rule "1.IH" [OF False _ _ sub1 rec])
      show "(tg1, gen1, ifs1)
          = fold (interface_step ct ms) (sorted_list_of_fset (tg |-| gen)) (tg, gen, ifs)"
        using f by (simp add: batch_def)
      show "(gen1, ifs1) = (gen1, ifs1)" ..
    qed
    then obtain names2 where e: "gen' = tg'" and t2: "tg1 |\<subseteq>| tg'"
      and d2: "distinct names2"
      and s2: "set names2 = {n. n |\<in>| gen' |-| gen1 \<and> map_of ms n \<noteq> None}"
      and i2: "ifs' = ifs1 @ map (\<lambda>n. interface_text ct (the (map_of ms n))) names2"
      by blast
    have sub2: "fset gen1 \<subseteq> fset gen'"
      using sub1 t2 e by (auto simp add: less_eq_fset.rep_eq)
    let ?names = "filter (\<lambda>n. map_of ms n \<noteq> None) batch @ names2"
    have "distinct ?names"
      using b(1) d2 s2 g1' by auto
    moreover have "set ?names = {n. n |\<in>| gen' |-| gen \<and> map_of ms n \<noteq> None}"
      using s2 g1' b(2) sub2 by auto
    moreover have "ifs' = ifs @ map (\<lambda>n. interface_text ct (the (map_of ms n))) ?names"
      using i1 i2 by simp
    moreover have "tg |\<subseteq>| tg'"
      using t1 t2 by auto
    ultimately show ?thesis using e by blast
  qed
qed

lemma fold_interface_step_fields:
  "fold (interface_step ct ms) names (tg, gen, ifs) = (tg', gen', ifs') \<Longrightarrow>
   n \<in> set names \<Longrightarrow> map_of ms n = Some model \<Longrightarrow>
     fields_models ct (model_fields model) |\<subseteq>| tg'"
proof (induction names arbitrary: tg gen ifs)
  case Nil
  then show ?case by simp
next
  case (Cons a names)
  obtain tg1 gen1 ifs1 where s: "interface_step ct ms a (tg, gen, ifs) = (tg1, gen1, ifs1)"
    by (metis prod_cases3)
  then have f: "fold (interface_step ct ms) names (tg1, gen1, ifs1) = (tg', gen', ifs')"
    using Cons.prems(1) by simp
  show ?case
  proof (cases "n \<in> set names")
    case True
    from Cons.IH [OF f True Cons.prems(3)] show ?thesis .
  next
    case False
    then have "a = n" using Cons.prems(2) by simp
    then have "tg1 = tg |\<union>| fields_models ct (model_fields model)"
      using s Cons.prems(3) by (simp add: interface_step_result)
    moreover have "tg1 |\<subseteq>| tg'"
      using fold_interface_step [OF f] by simp
    ultimately show ?thesis by auto
  qed
qed

lemma generate_interfaces_mono:
  "generate_interfaces ct ms tg gen ifs = r \<Longrightarrow> tg |\<subseteq>| snd (snd r)"
proof (induction ct ms tg gen ifs arbitrary: r rule: generate_interfaces.induct)
  case (1 ct ms tg gen ifs)
  show ?case
  proof (cases "tg |-| gen = {||}")
    case True
    then show ?thesis
      using "1.prems" by (auto simp add: generate_interfaces_unfold [of ct ms tg gen ifs])
  next
    case False
    obtain x y z where xyz: "fold (interface_step ct ms) (sorted_list_of_fset (tg |-| gen))
        (tg, gen, ifs) = (x, y, z)"
      by (metis prod_cases3)
    have "generate_interfaces ct ms x y z = r"
      using "1.prems" False xyz
      by (simp add: generate_interfaces_unfold [of ct ms tg gen ifs])
    then have "x |\<subseteq>| snd (snd r)"
      using "1.IH" [OF False _ _, of x "(y, z)" y z r] xyz by simp
    moreover have "tg |\<subseteq>| x"
      using fold_interface_step [OF xyz] by simp
    ultimately show ?thesis by auto
  qed
qed

lemma generate_interfaces_closed:
  "generate_interfaces ct ms tg gen ifs = (ifs', gen', tg') \<Longrightarrow>
   n |\<in>| gen' \<Longrightarrow> n |\<notin>| gen \<Longrightarrow> map_of ms n = Some model \<Longrightarrow>
     fields_models ct (model_fields model) |\<subseteq>| tg'"
proof (induction ct ms tg gen ifs rule: generate_interfaces.induct)
  case (1 ct ms tg gen ifs)
  show ?case
  proof (cases "tg |-| gen = {||}")
    case True
    then have "gen' = gen"
      using "1.prems"(1) by (simp add: generate_interfaces_unfold [of ct ms tg gen ifs])
    then show ?thesis using "1.prems"(2,3) by simp
  next
    case False
    define batch where "batch = sorted_list_of_fset (tg |-| gen)"
    obtain tg1 gen1 ifs1 where f: "fold (interface_step ct ms) batch (tg, gen, ifs) = (tg1, gen1, ifs1)"
      by (metis prod_cases3)
    have rec: "generate_interfaces ct ms tg1 gen1 ifs1 = (ifs', gen', tg')"
      using "1.prems"(1) False f
      by (simp add: generate_interfaces_unfold [of ct ms tg gen ifs] batch_def)
    have g1: "fset gen1 = fset gen \<union> set batch"
      using fold_interface_step [OF f] by (simp add: fset_of_list.rep_eq)
    show ?thesis
    proof (cases "n |\<in>| gen1")
      case True
      then have "n \<in> set batch" using g1 "1.prems"(3) by auto
      then have "fields_models ct (model_fields model) |\<subseteq>| tg1"
        using fold_interface_step_fields [OF f _ "1.prems"(4)] by simp
      moreover have "tg1 |\<subseteq>| tg'"
      proof (cases "tg1 |-| gen1 = {||}")
        case True
        then show ?thesis
          using rec by (simp add: generate_interfaces_unfold [of ct ms tg1 gen1 ifs1])
      next
        case False
        from generate_interfaces_mono [OF rec] show ?thesis by simp
      qed
      ultimately show ?thesis by auto
    next
      case False
      show ?thesis
      proof (rule "1.IH" [OF \<open>tg |-| gen \<noteq> {||}\<close> _ _ rec "1.prems"(2) False "1.prems"(4)])
        show "(tg1, gen1, ifs1)
            = fold (interface_step ct ms) (sorted_list_of_fset (tg |-| gen)) (tg, gen, ifs)"
          using f by (simp add: batch_def)
        show "(gen1, ifs1) = (gen1, ifs1)" ..
      qed
    qed
  qed
qed

text \<open>
  A registry built with the public operations: the model \<open>Author\<close> is registered with
  \<open>register_model\<close>, which does not visit its fields, and then the command \<open>get_author\<close>,
  which returns an \<open>Author\<close>, is decorated. The decorator finds the name \<open>Author\<close>
  registered and goes no further, so \<open>Book\<close>, the type of the field \<open>books\<close>, is never
  registered.
\<close>

definition unresolved_registry :: command_registry where
  "unresolved_registry =
     snd (command example_classes (register_model empty_registry author_class) get_author_fn None)"

text \<open>
  C2, as stated, fails: the name \<open>Book\<close> is reached from the return type of \<open>get_author\<close>
  and is not registered, and \<open>generate\<close> returns the whole client text all the same, with
  \<open>Book\<close> used in the declaration of \<open>Author\<close> and declared nowhere.
\<close>

theorem generate_skips_unregistered_name:
  "map fst (commands unresolved_registry) = [''get_author''] \<and>
   map_of (fn_hints get_author_fn) ''return'' = Some (TModel 1) \<and>
   map_of example_classes 1 = Some author_class \<and>
   ''Book'' |\<in>| fields_models example_classes (model_fields author_class) \<and>
   map_of (models unresolved_registry) ''Book'' = None \<and>
   generate example_classes unresolved_registry ''2024-01-01T00:00:00''
     = generate_header ''2024-01-01T00:00:00'' @ nl
       @ ''// ============ Interfaces ============'' @ nl @ nl
       @ ''export interface Author {'' @ nl
       @ ''    books: Book[];'' @ nl
       @ ''}'' @ nl
       @ nl @ nl
       @ ''// ============ Commands ============'' @ nl @ nl
       @ ''/**'' @ nl
       @ '' * Get an author.'' @ nl
       @ '' */'' @ nl
       @ ''export async function getAuthor(args: { authorId: number }): Promise<Author> {'' @ nl
       @ ''    return request('' @ dq @ ''get_author'' @ dq @ '', args);'' @ nl
       @ ''}''"
  by code_simp

lemma fold_finsert: "fold finsert xs m = m |\<union>| fset_of_list xs"
  by (induction xs arbitrary: m) auto

text \<open>
  C2, amended. The text \<open>generate\<close> returns is the header, the declarations and the
  functions, for every registry. The declarations are those of the registered names among
  the names reached, one for each. The names reached include the names the types of the
  commands mention, the names of the model registry and the names the fields of a
  declared model mention; a name reached that is not registered has no declaration.
\<close>

theorem generate_declares_registered_names:
  "\<exists>names reached.
     distinct names \<and>
     set names = {n. n |\<in>| reached \<and> map_of (models reg) n \<noteq> None} \<and>
     snd (command_functions ct (sorted_commands reg)) |\<subseteq>| reached \<and>
     fst ` set (models reg) \<subseteq> fset reached \<and>
     (\<forall>n model. n |\<in>| reached \<and> map_of (models reg) n = Some model \<longrightarrow>
        fields_models ct (model_fields model) |\<subseteq>| reached) \<and>
     generate ct reg now =
       join nl
         ([generate_header now]
          @ (if names \<noteq> []
             then [''// ============ Interfaces ============'' @ nl,
                   join (nl @ nl) (map (\<lambda>n. interface_text ct (the (map_of (models reg) n))) names),
                   []]
             else [])
          @ (if fst (command_functions ct (sorted_commands reg)) \<noteq> []
             then [nl @ ''// ============ Commands ============'' @ nl,
                   join (nl @ nl) (fst (command_functions ct (sorted_commands reg)))]
             else []))"
proof -
  obtain fns m0 where cf: "command_functions ct (sorted_commands reg) = (fns, m0)"
    by fastforce
  define tg where "tg = fold finsert (map fst (models reg)) m0"
  obtain ifs gen tg' where gi: "generate_interfaces ct (models reg) tg {||} [] = (ifs, gen, tg')"
    by (metis prod_cases3)
  have tg: "tg = m0 |\<union>| fset_of_list (map fst (models reg))"
    by (simp add: tg_def fold_finsert)
  have all: "gen = tg' \<and> tg |\<subseteq>| tg' \<and>
      (\<exists>names. distinct names \<and>
         set names = {n. n |\<in>| gen |-| {||} \<and> map_of (models reg) n \<noteq> None} \<and>
         ifs = [] @ map (\<lambda>n. interface_text ct (the (map_of (models reg) n))) names)"
    by (rule generate_interfaces_invariant [OF _ gi]) simp
  then have inv: "gen = tg'" "tg |\<subseteq>| tg'"
    by simp_all
  from all obtain names where d: "distinct names"
    and s: "set names = {n. n |\<in>| gen \<and> map_of (models reg) n \<noteq> None}"
    and i: "ifs = map (\<lambda>n. interface_text ct (the (map_of (models reg) n))) names"
    by auto
  have c: "\<forall>n model. n |\<in>| gen \<and> map_of (models reg) n = Some model \<longrightarrow>
      fields_models ct (model_fields model) |\<subseteq>| gen"
    using generate_interfaces_closed [OF gi] inv(1) by auto
  have tgs: "fset tg = fset m0 \<union> fst ` set (models reg)"
    unfolding tg by (simp add: fset_of_list.rep_eq)
  have sub: "fset tg \<subseteq> fset gen"
    using inv by (simp add: less_eq_fset.rep_eq)
  have m: "m0 |\<subseteq>| gen" "fst ` set (models reg) \<subseteq> fset gen"
    using tgs sub by (auto simp add: less_eq_fset.rep_eq)
  have e: "(ifs \<noteq> []) = (names \<noteq> [])"
    using i by simp
  have g: "generate ct reg now =
      join nl
        ([generate_header now]
         @ (if names \<noteq> []
            then [''// ============ Interfaces ============'' @ nl,
                  join (nl @ nl) (map (\<lambda>n. interface_text ct (the (map_of (models reg) n))) names),
                  []]
            else [])
         @ (if fns \<noteq> []
            then [nl @ ''// ============ Commands ============'' @ nl, join (nl @ nl) fns]
            else []))"
    unfolding generate_def cf prod.case tg_def [symmetric] gi e i [symmetric] by simp
  show ?thesis
    using d s c m g cf by (intro exI [of _ names] exI [of _ gen]) simp
qed

theorem generate_declares_registered_names_witness:
  "\<exists>names reached.
     distinct names \<and>
     ''Author'' |\<in>| reached \<and> ''Author'' \<in> set names \<and>
     ''Book'' |\<in>| reached \<and> ''Book'' \<notin> set names \<and>
     generate example_classes unresolved_registry ''2024-01-01T00:00:00'' =
       join nl
         ([generate_header ''2024-01-01T00:00:00'']
          @ (if names \<noteq> []
             then [''// ============ Interfaces ============'' @ nl,
                   join (nl @ nl)
                     (map (\<lambda>n. interface_text example_classes (the (map_of (models unresolved_registry) n)))
                        names),
                   []]
             else [])
          @ (if fst (command_functions example_classes (sorted_commands unresolved_registry)) \<noteq> []
             then [nl @ ''// ============ Commands ============'' @ nl,
                   join (nl @ nl) (fst (command_functions example_classes (sorted_commands unresolved_registry)))]
             else []))"
proof -
  have a: "map_of (models unresolved_registry) ''Author'' = Some author_class"
    by code_simp
  have k: "''Author'' \<in> fst ` set (models unresolved_registry)"
    by code_simp
  have b: "''Book'' |\<in>| fields_models example_classes (model_fields author_class)"
    by code_simp
  have c: "map_of (models unresolved_registry) ''Book'' = None"
    by code_simp
  obtain names reached where n: "distinct names"
    and s: "set names = {n. n |\<in>| reached \<and> map_of (models unresolved_registry) n \<noteq> None}"
    and r: "fst ` set (models unresolved_registry) \<subseteq> fset reached"
    and f: "\<forall>n model. n |\<in>| reached \<and> map_of (models unresolved_registry) n = Some model \<longrightarrow>
        fields_models example_classes (model_fields model) |\<subseteq>| reached"
    and g: "generate example_classes unresolved_registry ''2024-01-01T00:00:00'' =
       join nl
         ([generate_header ''2024-01-01T00:00:00'']
          @ (if names \<noteq> []
             then [''// ============ Interfaces ============'' @ nl,
                   join (nl @ nl)
                     (map (\<lambda>n. interface_text example_classes (the (map_of (models unresolved_registry) n)))
                        names),
                   []]
             else [])
          @ (if fst (command_functions example_classes (sorted_commands unresolved_registry)) \<noteq> []
             then [nl @ ''// ============ Commands ============'' @ nl,
                   join (nl @ nl) (fst (command_functions example_classes (sorted_commands unresolved_registry)))]
             else []))"
    using generate_declares_registered_names
      [of unresolved_registry example_classes "''2024-01-01T00:00:00''"]
    by blast
  have ar: "''Author'' |\<in>| reached"
    using k r by auto
  then have "fields_models example_classes (model_fields author_class) |\<subseteq>| reached"
    using f a by blast
  then have br: "''Book'' |\<in>| reached"
    using b by auto
  have "''Author'' \<in> set names" "''Book'' \<notin> set names"
    using s ar a c by simp_all
  then show ?thesis
    using n ar br g by blast
qed

section \<open>Determinism of generation\<close>

text \<open>
  The dictionaries of a registry built by \<open>register\<close>, \<open>register_model\<close> and
  \<open>collect_models_from_type\<close> have distinct keys, and a command is stored under its name:
  \<open>registry_ok\<close>. Two registries have the same content when their dictionaries hold the
  same entries, in whatever order they were inserted: \<open>same_content\<close>.
\<close>

definition registry_ok :: "command_registry \<Rightarrow> bool" where
  "registry_ok reg =
     (distinct (map fst (commands reg)) \<and> distinct (map fst (models reg)) \<and>
      list_all (\<lambda>(k, cmd). name cmd = k) (commands reg))"

definition same_content :: "command_registry \<Rightarrow> command_registry \<Rightarrow> bool" where
  "same_content r1 r2 =
     (set (commands r1) = set (commands r2) \<and> set (models r1) = set (models r2))"

lemma registry_ok_empty: "registry_ok empty_registry"
  by (simp add: registry_ok_def empty_registry_def)

lemma registry_ok_register: "registry_ok reg \<Longrightarrow> registry_ok (snd (register reg cmd))"
proof (cases "map_of (commands reg) (name cmd)")
  case None
  assume ok: "registry_ok reg"
  have r: "register reg cmd = (Inr (), reg\<lparr>commands := commands reg @ [(name cmd, cmd)]\<rparr>)"
    using None by (simp add: register_def update_new_key)
  have "name cmd \<notin> fst ` set (commands reg)"
    using None by (simp add: map_of_eq_None_iff)
  then show ?thesis
    using ok by (simp add: r registry_ok_def)
next
  case (Some existing)
  assume "registry_ok reg"
  then show ?thesis using Some by (simp add: register_def)
qed

lemma registry_ok_register_model: "registry_ok reg \<Longrightarrow> registry_ok (register_model reg model)"
  by (simp add: registry_ok_def register_model_def distinct_update)

lemma registry_ok_collect:
  "registry_ok reg \<Longrightarrow> registry_ok (collect_models_from_type ct reg type_hint)"
  using collect_models_distinct [of "models reg" ct "[type_hint]"]
  by (simp add: registry_ok_def collect_models_from_type_def del: collect_models.simps)

lemma registry_ok_param_step:
  "registry_ok reg \<Longrightarrow> registry_ok (fst (param_step ct fn p (reg, ps, hc)))"
  by (simp add: param_step_def Let_def registry_ok_collect split: option.split list.split)

lemma registry_ok_fold_param_step:
  "registry_ok (fst st) \<Longrightarrow> registry_ok (fst (fold (param_step ct fn) names st))"
proof (induction names arbitrary: st)
  case Nil
  then show ?case by simp
next
  case (Cons p names)
  obtain reg ps hc where st: "st = (reg, ps, hc)"
    by (metis prod_cases3)
  have "registry_ok (fst (param_step ct fn p st))"
    using Cons.prems registry_ok_param_step [of reg ct fn p ps hc] by (simp add: st)
  then show ?case using Cons.IH by simp
qed

lemma registry_ok_command:
  "registry_ok reg \<Longrightarrow> registry_ok (snd (command ct reg fn nm))"
proof -
  assume ok: "registry_ok reg"
  obtain r ps hc where f: "fold (param_step ct fn) (fn_params fn) (reg, [], False) = (r, ps, hc)"
    by (metis prod_cases3)
  have "registry_ok r"
    using registry_ok_fold_param_step [of "(reg, [], False)" ct fn "fn_params fn"] ok f by simp
  then show ?thesis
    by (simp add: command_def build_command_info_def f Let_def registry_ok_register
          registry_ok_collect)
qed

lemma filter_same_key:
  "distinct (map f zs) \<Longrightarrow> k \<in> set zs \<Longrightarrow> filter (\<lambda>x. f k = f x) zs = [k]"
proof (induction zs)
  case Nil
  then show ?case by simp
next
  case (Cons z zs)
  show ?case
  proof (cases "z = k")
    case True
    have "filter (\<lambda>x. f k = f x) zs = []"
      using Cons.prems(1) True by (auto simp add: filter_empty_conv)
    then show ?thesis using True by simp
  next
    case False
    then have m: "k \<in> set zs" using Cons.prems(2) by simp
    have "f z \<notin> f ` set zs" using Cons.prems(1) by simp
    then have "f k \<noteq> f z" using m by (metis imageI)
    then show ?thesis using Cons m by simp
  qed
qed

lemma sort_key_same_entries:
  assumes "mset xs = mset ys" and "distinct (map f xs)"
  shows "sort_key f xs = sort_key f ys"
proof (rule properties_for_sort_key)
  show "mset (sort_key f ys) = mset xs"
    using assms(1) by simp
  show "sorted (map f (sort_key f ys))"
    by simp
  fix k
  assume "k \<in> set (sort_key f ys)"
  then have k: "k \<in> set xs"
    using assms(1) by (metis mset_eq_setD set_sort)
  have "mset (map f (sort_key f ys)) = mset (map f xs)"
    using assms(1) by simp
  then have d: "distinct (map f (sort_key f ys))"
    using assms(2) by (metis mset_eq_imp_distinct_iff)
  have "filter (\<lambda>x. f k = f x) (sort_key f ys) = [k]"
    using d \<open>k \<in> set (sort_key f ys)\<close> by (rule filter_same_key)
  moreover have "filter (\<lambda>x. f k = f x) xs = [k]"
    using assms(2) k by (rule filter_same_key)
  ultimately show "filter (\<lambda>x. f k = f x) (sort_key f ys) = filter (\<lambda>x. f k = f x) xs"
    by simp
qed

lemma names_are_keys:
  "list_all (\<lambda>(k, cmd). name cmd = k) cs \<Longrightarrow> map name (map snd cs) = map fst cs"
  by (induction cs) auto

lemma distinct_keys_distinct: "distinct (map fst xs) \<Longrightarrow> distinct xs"
  by (simp add: distinct_map)

lemma sorted_commands_same_content:
  assumes "registry_ok r1" and "registry_ok r2" and "same_content r1 r2"
  shows "sorted_commands r1 = sorted_commands r2"
proof -
  have "mset (commands r1) = mset (commands r2)"
    using assms
    by (simp add: registry_ok_def same_content_def distinct_keys_distinct
          set_eq_iff_mset_eq_distinct [symmetric])
  then have "mset (map snd (commands r1)) = mset (map snd (commands r2))"
    by (metis mset_map)
  moreover have "distinct (map name (map snd (commands r1)))"
    using assms(1) by (simp only: registry_ok_def names_are_keys)
  ultimately show ?thesis
    unfolding sorted_commands_def by (rule sort_key_same_entries)
qed

lemma interface_step_same_lookup:
  "map_of ms1 = map_of ms2 \<Longrightarrow> interface_step ct ms1 = interface_step ct ms2"
  by (intro ext) (simp add: interface_step_def)

lemma generate_interfaces_same_lookup:
  "map_of ms1 = map_of ms2 \<Longrightarrow>
     generate_interfaces ct ms1 tg gen ifs = generate_interfaces ct ms2 tg gen ifs"
proof (induction ct ms1 tg gen ifs rule: generate_interfaces.induct)
  case (1 ct ms1 tg gen ifs)
  show ?case
  proof (cases "tg |-| gen = {||}")
    case True
    then show ?thesis
      by (simp add: generate_interfaces_unfold [of ct ms1 tg gen ifs]
            generate_interfaces_unfold [of ct ms2 tg gen ifs])
  next
    case False
    obtain x y z where xyz: "fold (interface_step ct ms1) (sorted_list_of_fset (tg |-| gen))
        (tg, gen, ifs) = (x, y, z)"
      by (metis prod_cases3)
    have "generate_interfaces ct ms1 x y z = generate_interfaces ct ms2 x y z"
      using "1.IH" [OF False _ _ "1.prems", of x "(y, z)" y z] xyz by simp
    then show ?thesis
      using False xyz interface_step_same_lookup [OF "1.prems", of ct]
      by (simp add: generate_interfaces_unfold [of ct ms1 tg gen ifs]
            generate_interfaces_unfold [of ct ms2 tg gen ifs])
  qed
qed

lemma join_Cons: "join sep (x # xs) = x @ (if xs = [] then [] else sep @ join sep xs)"
  by (cases xs) simp_all

text \<open>
  C1, as stated, fails: the header holds the time of the call, so two calls on the same
  registry (here the empty one) one second apart return different texts.
\<close>

theorem generate_differs_with_time:
  "generate [] empty_registry ''2024-01-01T00:00:00'' \<noteq> generate [] empty_registry ''2024-01-01T00:00:01''"
  by code_simp

text \<open>
  C1, amended. For registries with the same content, whatever the order of registration,
  and the same reading of the clock, \<open>generate\<close> returns the same text; and the text is the
  header, which holds the time, followed by a text that is the same for every time.
\<close>

theorem generate_depends_on_content:
  assumes "registry_ok r1" and "registry_ok r2" and "same_content r1 r2"
  shows "(\<forall>now. generate ct r1 now = generate ct r2 now) \<and>
         (\<exists>rest. \<forall>now. generate ct r1 now = generate_header now @ rest)"
proof -
  have c: "sorted_commands r1 = sorted_commands r2"
    using assms by (rule sorted_commands_same_content)
  have l: "map_of (models r1) = map_of (models r2)"
    using assms by (simp add: registry_ok_def same_content_def map_of_inject_set)
  have "fst ` set (models r1) = fst ` set (models r2)"
    using assms(3) by (simp add: same_content_def)
  then have k: "fset_of_list (map fst (models r1)) = fset_of_list (map fst (models r2))"
    by (simp add: fset_eq_iff fset_of_list.rep_eq)
  have "generate ct r1 now = generate ct r2 now" for now
    unfolding generate_def c fold_finsert k generate_interfaces_same_lookup [OF l] ..
  moreover have "\<exists>rest. \<forall>now. generate ct r1 now = generate_header now @ rest"
  proof -
    obtain fns m0 where cf: "command_functions ct (sorted_commands r1) = (fns, m0)"
      by fastforce
    obtain ifs gen tg' where gi: "generate_interfaces ct (models r1)
        (fold finsert (map fst (models r1)) m0) {||} [] = (ifs, gen, tg')"
      by (metis prod_cases3)
    have "generate ct r1 now = generate_header now @
        (if (if ifs \<noteq> []
             then [''// ============ Interfaces ============'' @ nl, join (nl @ nl) ifs, []]
             else [])
            @ (if fns \<noteq> []
               then [nl @ ''// ============ Commands ============'' @ nl, join (nl @ nl) fns]
               else []) = []
         then []
         else nl @ join nl
           ((if ifs \<noteq> []
             then [''// ============ Interfaces ============'' @ nl, join (nl @ nl) ifs, []]
             else [])
            @ (if fns \<noteq> []
               then [nl @ ''// ============ Commands ============'' @ nl, join (nl @ nl) fns]
               else [])))" for now
      unfolding generate_def cf prod.case gi append_Cons append_Nil by (rule join_Cons)
    then show ?thesis by blast
  qed
  ultimately show ?thesis by simp
qed

definition registry_a_b :: command_registry where
  "registry_a_b =
     snd (register (snd (register empty_registry (example_cmd ''a'' ''users''))) (example_cmd ''b'' ''tasks''))"

theorem generate_depends_on_content_witness:
  "registry_ok registry_b_a \<and> registry_ok registry_a_b \<and> same_content registry_b_a registry_a_b \<and>
   commands registry_b_a \<noteq> commands registry_a_b \<and>
   generate [] registry_b_a ''2024-01-01T00:00:00'' = generate [] registry_a_b ''2024-01-01T00:00:00''"
proof -
  have a: "registry_ok registry_b_a" "registry_ok registry_a_b"
    unfolding registry_b_a_def registry_a_b_def
    by (intro registry_ok_register registry_ok_empty)+
  have b: "same_content registry_b_a registry_a_b"
    by (auto simp add: same_content_def registry_b_a_def registry_a_b_def register_def
          empty_registry_def example_cmd_def)
  have d: "commands registry_b_a \<noteq> commands registry_a_b"
    by (simp add: registry_b_a_def registry_a_b_def register_def empty_registry_def example_cmd_def)
  show ?thesis
    using generate_depends_on_content [OF a b, of "[]"] a b d by simp
qed

end
